theory Spec2Isabelle
  imports Complex_Main "HOL-Library.AList" "HOL-Library.Sublist"
begin

section \<open>Data: JSON values, listen events, the outside world\<close>

text \<open>
  The program is \<^verbatim>\<open>src/scrobble_songs.py\<close>. A song is a Python dict read from a JSON
  file; it is kept as an association list, in key order. \<open>map_of\<close> is the lookup and
  \<open>AList.update\<close> is the dict's assignment (replace in place, or add at the end).
\<close>

datatype json =
    JNull
  | JBool bool
  | JInt int
  | JFloat real
  | JStr string
  | JArr "json list"
  | JObj "(string \<times> json) list"

type_synonym song = "(string \<times> json) list"

text \<open>
  What one call of \<^verbatim>\<open>network.scrobble\<close> can do: return, or raise. The three pylast
  classes are the ones the source names in its \<^verbatim>\<open>except\<close> clause; every other
  \<^verbatim>\<open>Exception\<close> is \<open>OtherException\<close>. The string is \<^verbatim>\<open>str(e)\<close>.
\<close>

datatype exn_class = NetworkError | MalformedResponseError | WSError | OtherException

datatype outcome = Ok | Raise exn_class string

record scrobble_call =
  artist :: json
  title :: json
  timestamp :: json
  album :: json

text \<open>
  The effects of a run, in the order they happen: calls of the remote service and
  sleeps (\<^verbatim>\<open>time.sleep\<close>, seconds; the source's floats are taken as reals). Console
  output (\<^verbatim>\<open>click.echo\<close>) is not recorded; where building a message can raise, the
  raise is modelled.
\<close>

datatype event = Call scrobble_call | Sleep real

text \<open>
  A JSON artifact on disk: \<open>Holds v\<close> is a file that \<^verbatim>\<open>json.load\<close> reads as \<open>v\<close>
  (what \<^verbatim>\<open>json.dump\<close> of \<open>v\<close> wrote), \<open>Unparsable\<close> a file that \<^verbatim>\<open>json.load\<close>
  rejects. The processed-file log is a text file, kept as its content (empty when the
  file does not exist yet: it is opened in append mode).
\<close>

datatype json_file = Unparsable | Holds json

record world =
  ncalls :: nat
  draws :: nat
  trace :: "event list"
  scrobbled_files :: string
  json_files :: "string \<Rightarrow> json_file option"

text \<open>
  The environment the run cannot control: what the service answers to its \<open>n\<close>-th call,
  and what the \<open>n\<close>-th \<^verbatim>\<open>random.uniform(0, 0.2)\<close> returns.
\<close>

record env =
  network :: "nat \<Rightarrow> scrobble_call \<Rightarrow> outcome"
  uniform :: "nat \<Rightarrow> real"

text \<open>
  Exceptions that leave a function of the program. The world at the moment of the
  raise is kept with the exception: effects that happened stay happened. An interrupt
  from outside (KeyboardInterrupt, a kill) is not an \<^verbatim>\<open>Exception\<close> and is not modelled.
\<close>

datatype py_error = KeyError string | ValueError | JSONDecodeError | AttributeError

type_synonym 'a result = "(py_error \<times> world) + ('a \<times> world)"

section \<open>Library behaviour the program relies on\<close>

text \<open>\<^verbatim>\<open>time.sleep(d)\<close> raises ValueError for a negative \<open>d\<close>.\<close>

definition py_sleep :: "real \<Rightarrow> world \<Rightarrow> (py_error \<times> world) + world" where
  "py_sleep d w =
     (if d < 0 then Inl (ValueError, w) else Inr (w\<lparr>trace := trace w @ [Sleep d]\<rparr>))"

text \<open>
  \<^verbatim>\<open>str.lower\<close> on the ASCII letters; the five trigger strings of the source are ASCII,
  and no other character lower-cases into one of their letters in a way that completes
  a trigger.
\<close>

definition lower_char :: "char \<Rightarrow> char" where
  "lower_char c =
     (case map_of (zip ''ABCDEFGHIJKLMNOPQRSTUVWXYZ'' ''abcdefghijklmnopqrstuvwxyz'') c of
        Some l \<Rightarrow> l
      | None \<Rightarrow> c)"

definition lower :: "string \<Rightarrow> string" where
  "lower s = map lower_char s"

text \<open>\<^verbatim>\<open>str(n)\<close> for an int.\<close>

fun show_nat :: "nat \<Rightarrow> string" where
  "show_nat n =
     (if n < 10 then [''0123456789'' ! n]
      else show_nat (n div 10) @ [''0123456789'' ! (n mod 10)])"

definition show_int :: "int \<Rightarrow> string" where
  "show_int i = (if i < 0 then ''-'' @ show_nat (nat (- i)) else show_nat (nat i))"

text \<open>\<^verbatim>\<open>str(KeyError(k))\<close> is the key in single quotes.\<close>

definition key_error_str :: "string \<Rightarrow> string" where
  "key_error_str k = [CHR 0x27] @ k @ [CHR 0x27]"

text \<open>\<^verbatim>\<open>os.path.basename\<close>: what follows the last slash.\<close>

definition basename :: "string \<Rightarrow> string" where
  "basename p = rev (takeWhile (\<lambda>c. c \<noteq> CHR ''/'') (rev p))"

text \<open>\<^verbatim>\<open>xs[s:]\<close> for an int \<open>s\<close>: a negative \<open>s\<close> counts from the end, clamped at 0.\<close>

definition slice_from :: "'a list \<Rightarrow> int \<Rightarrow> 'a list" where
  "slice_from xs s =
     (if s < 0 then drop (nat (int (length xs) + s)) xs else drop (nat s) xs)"

section \<open>append_json\<close>

definition append_json :: "string \<Rightarrow> json list \<Rightarrow> world \<Rightarrow> (py_error \<times> world) + world" where
  "append_json file_path new_data w =
     (case json_files w file_path of
        None \<Rightarrow>
          Inr (w\<lparr>json_files := (json_files w)(file_path \<mapsto> Holds (JArr ([] @ new_data)))\<rparr>)
      | Some Unparsable \<Rightarrow> Inl (JSONDecodeError, w)
      | Some (Holds (JArr data)) \<Rightarrow>
          Inr (w\<lparr>json_files := (json_files w)(file_path \<mapsto> Holds (JArr (data @ new_data)))\<rparr>)
      | Some (Holds _) \<Rightarrow> Inl (AttributeError, w))"

section \<open>scrobble_with_retry\<close>

definition triggers :: "string list" where
  "triggers = [''502'', ''500'', ''503'', ''timeout'', ''rate limit'']"

definition is_transient_text :: "string \<Rightarrow> bool" where
  "is_transient_text error_str = list_ex (\<lambda>code. sublist code error_str) triggers"

text \<open>
  The arguments of \<^verbatim>\<open>network.scrobble\<close>, evaluated left to right; a missing
  \<^verbatim>\<open>artistName\<close> or \<^verbatim>\<open>trackName\<close> raises KeyError (\<open>Inl\<close> the key) before the call.
\<close>

definition call_args :: "song \<Rightarrow> string + scrobble_call" where
  "call_args song =
     (case map_of song ''artistName'' of
        None \<Rightarrow> Inl ''artistName''
      | Some a \<Rightarrow>
          (case map_of song ''trackName'' of
             None \<Rightarrow> Inl ''trackName''
           | Some t \<Rightarrow>
               Inr \<lparr>artist = a, title = t,
                    timestamp = (case map_of song ''timestamp'' of
                                   None \<Rightarrow> JInt 1767253534 | Some v \<Rightarrow> v),
                    album = (case map_of song ''albumName'' of
                               None \<Rightarrow> JStr [] | Some v \<Rightarrow> v)\<rparr>))"

text \<open>Line 69: the backoff before the next attempt, in seconds.\<close>

definition wait_time :: "nat \<Rightarrow> int" where
  "wait_time attempt = min 60 (2 ^ (attempt + 1))"

text \<open>
  The body of \<^verbatim>\<open>for attempt in range(max_retries)\<close>, by recursion on the attempts
  still to run; the empty list is the fall-through after the loop.
\<close>

fun retry_loop :: "env \<Rightarrow> song \<Rightarrow> int \<Rightarrow> nat list \<Rightarrow> world \<Rightarrow> (bool \<times> string option) result" where
  "retry_loop e song max_retries [] w = Inr ((False, Some ''Max retries exceeded''), w)"
| "retry_loop e song max_retries (attempt # rest) w =
     (case call_args song of
        Inl k \<Rightarrow> Inr ((False, Some (''Unexpected error: '' @ key_error_str k)), w)
      | Inr c \<Rightarrow>
          (let w1 = w\<lparr>ncalls := ncalls w + 1, trace := trace w @ [Call c]\<rparr> in
           case network e (ncalls w) c of
             Ok \<Rightarrow> Inr ((True, None), w1)
           | Raise cls msg \<Rightarrow>
               if cls \<noteq> OtherException then
                 if is_transient_text (lower msg) then
                   if int attempt < max_retries - 1 then
                     (case py_sleep (real_of_int (wait_time attempt)) w1 of
                        Inl x \<Rightarrow> Inl x
                      | Inr w2 \<Rightarrow> retry_loop e song max_retries rest w2)
                   else
                     Inr ((False, Some (''Server error after '' @ show_int max_retries
                                          @ '' attempts: '' @ msg)), w1)
                 else Inr ((False, Some (''API error: '' @ msg)), w1)
               else Inr ((False, Some (''Unexpected error: '' @ msg)), w1)))"

definition scrobble_with_retry :: "env \<Rightarrow> song \<Rightarrow> int \<Rightarrow> world \<Rightarrow> (bool \<times> string option) result" where
  "scrobble_with_retry e song max_retries w =
     retry_loop e song max_retries [0..<nat max_retries] w"

text \<open>
  The spec's words for the branches of lines 62 to 79. An error is \<^emph>\<open>caught\<close> when it
  is of one of the three pylast classes; a caught error is \<^emph>\<open>transient\<close> when its
  lower-cased text holds a trigger (line 66) and \<^emph>\<open>permanent\<close> otherwise (line 74);
  any other exception is \<^emph>\<open>uncategorized\<close> (line 78).
\<close>

definition is_transient :: "outcome \<Rightarrow> bool" where
  "is_transient r =
     (case r of Ok \<Rightarrow> False
      | Raise cls msg \<Rightarrow> cls \<noteq> OtherException \<and> is_transient_text (lower msg))"

definition is_permanent :: "outcome \<Rightarrow> bool" where
  "is_permanent r =
     (case r of Ok \<Rightarrow> False
      | Raise cls msg \<Rightarrow> cls \<noteq> OtherException \<and> \<not> is_transient_text (lower msg))"

definition is_uncategorized :: "outcome \<Rightarrow> bool" where
  "is_uncategorized r = (case r of Ok \<Rightarrow> False | Raise cls msg \<Rightarrow> cls = OtherException)"

definition error_text :: "outcome \<Rightarrow> string" where
  "error_text r = (case r of Ok \<Rightarrow> [] | Raise cls msg \<Rightarrow> msg)"

text \<open>
  The events of \<open>k\<close> attempts that each failed and were retried, the first of them
  attempt number \<open>a\<close> (0-based): a call, then the backoff sleep.
\<close>

definition backoff_events :: "scrobble_call \<Rightarrow> nat \<Rightarrow> nat \<Rightarrow> event list" where
  "backoff_events c a k =
     concat (map (\<lambda>j. [Call c, Sleep (real_of_int (wait_time j))]) [a..<a + k])"

fun sleeps_of :: "event list \<Rightarrow> real list" where
  "sleeps_of [] = []"
| "sleeps_of (Call c # evs) = sleeps_of evs"
| "sleeps_of (Sleep d # evs) = d # sleeps_of evs"

fun calls_of :: "event list \<Rightarrow> scrobble_call list" where
  "calls_of [] = []"
| "calls_of (Call c # evs) = c # calls_of evs"
| "calls_of (Sleep d # evs) = calls_of evs"

section \<open>main\<close>

record batch_state =
  success_count :: int
  error_count :: int
  failed_songs :: "song list"
  consecutive_errors :: int

datatype flow = Continue | Break

text \<open>\<^verbatim>\<open>{**song, 'error': error_msg}\<close>\<close>

definition with_error :: "song \<Rightarrow> string option \<Rightarrow> song" where
  "with_error song error_msg =
     AList.update ''error'' (case error_msg of None \<Rightarrow> JNull | Some m \<Rightarrow> JStr m) song"

text \<open>
  The failure branch of the loop body (lines 117 to 126): count, record, build the error
  notice (which reads both required keys), and sleep when more than three failures came
  in a row.
\<close>

definition on_failure :: "song \<Rightarrow> string option \<Rightarrow> batch_state \<Rightarrow> world \<Rightarrow> batch_state result" where
  "on_failure song error_msg st w =
     (let st1 = st\<lparr>error_count := error_count st + 1,
                   consecutive_errors := consecutive_errors st + 1,
                   failed_songs := failed_songs st @ [with_error song error_msg]\<rparr> in
      case map_of song ''artistName'' of
        None \<Rightarrow> Inl (KeyError ''artistName'', w)
      | Some _ \<Rightarrow>
          (case map_of song ''trackName'' of
             None \<Rightarrow> Inl (KeyError ''trackName'', w)
           | Some _ \<Rightarrow>
               if consecutive_errors st1 > 3 then
                 (case py_sleep (real_of_int (min 60 (consecutive_errors st1 * 10))) w of
                    Inl x \<Rightarrow> Inl x
                  | Inr w1 \<Rightarrow> Inr (st1, w1))
               else Inr (st1, w)))"

text \<open>
  The end of the loop body (lines 128 to 138): the halt check, then the base delay with
  jitter and the cooldown after every 500th item.
\<close>

definition throttle :: "env \<Rightarrow> real \<Rightarrow> nat \<Rightarrow> batch_state \<Rightarrow> world \<Rightarrow> (flow \<times> batch_state) result" where
  "throttle e delay i st w =
     (if consecutive_errors st > 10 then Inr ((Break, st), w)
      else
        (case py_sleep (delay + uniform e (draws w)) (w\<lparr>draws := draws w + 1\<rparr>) of
           Inl x \<Rightarrow> Inl x
         | Inr w1 \<Rightarrow>
             if (i + 1) mod 500 = 0 then
               (case py_sleep 120 w1 of
                  Inl x \<Rightarrow> Inl x
                | Inr w2 \<Rightarrow> Inr ((Continue, st), w2))
             else Inr ((Continue, st), w1)))"

definition loop_body :: "env \<Rightarrow> real \<Rightarrow> nat \<Rightarrow> song \<Rightarrow> batch_state \<Rightarrow> world \<Rightarrow> (flow \<times> batch_state) result" where
  "loop_body e delay i song st w =
     (case scrobble_with_retry e song 5 w of
        Inl x \<Rightarrow> Inl x
      | Inr ((success, error_msg), w1) \<Rightarrow>
          if success then
            throttle e delay i
              (st\<lparr>success_count := success_count st + 1, consecutive_errors := 0\<rparr>) w1
          else
            (case on_failure song error_msg st w1 of
               Inl x \<Rightarrow> Inl x
             | Inr (st1, w2) \<Rightarrow> throttle e delay i st1 w2))"

text \<open>\<^verbatim>\<open>for i, song in enumerate(songs)\<close>, with its \<^verbatim>\<open>break\<close>.\<close>

fun batch_loop :: "env \<Rightarrow> real \<Rightarrow> (nat \<times> song) list \<Rightarrow> batch_state \<Rightarrow> world \<Rightarrow> batch_state result" where
  "batch_loop e delay [] st w = Inr (st, w)"
| "batch_loop e delay ((i, song) # rest) st w =
     (case loop_body e delay i song st w of
        Inl x \<Rightarrow> Inl x
      | Inr ((Break, st1), w1) \<Rightarrow> Inr (st1, w1)
      | Inr ((Continue, st1), w1) \<Rightarrow> batch_loop e delay rest st1 w1)"

definition init_state :: batch_state where
  "init_state = \<lparr>success_count = 0, error_count = 0, failed_songs = [], consecutive_errors = 0\<rparr>"

text \<open>
  Lines 140 to 149: the processed-file log gets the file's base name and a newline
  (\<open>flush_logs\<close>); the failed songs go to the JSON artifact when there are any
  (\<open>record_failures\<close>, lines 147 and 148).
\<close>

definition record_failures :: "song list \<Rightarrow> world \<Rightarrow> (py_error \<times> world) + world" where
  "record_failures failed w =
     (if failed \<noteq> [] then append_json ''../logs/failed_songs.json'' (map JObj failed) w
      else Inr w)"

definition flush_logs :: "string \<Rightarrow> batch_state \<Rightarrow> world \<Rightarrow> batch_state result" where
  "flush_logs file_name st w =
     (let w1 = w\<lparr>scrobbled_files := scrobbled_files w @ basename file_name @ [CHR 0x0A]\<rparr> in
      case record_failures (failed_songs st) w1 of
        Inl x \<Rightarrow> Inl x
      | Inr w2 \<Rightarrow> Inr (st, w2))"

definition main :: "env \<Rightarrow> string \<Rightarrow> song list \<Rightarrow> int \<Rightarrow> real \<Rightarrow> world \<Rightarrow> batch_state result" where
  "main e file_name data start_index delay w =
     (let songs = slice_from data start_index in
      case batch_loop e delay (enumerate 0 songs) init_state w of
        Inl x \<Rightarrow> Inl x
      | Inr (st, w1) \<Rightarrow> flush_logs file_name st w1)"

text \<open>
  The states at the end of each iteration the loop ran, in order: one per item
  processed. It follows \<open>batch_loop\<close> step for step and stops where the loop stops.
\<close>

fun batch_hist :: "env \<Rightarrow> real \<Rightarrow> (nat \<times> song) list \<Rightarrow> batch_state \<Rightarrow> world \<Rightarrow> (batch_state \<times> world) list" where
  "batch_hist e delay [] st w = []"
| "batch_hist e delay ((i, song) # rest) st w =
     (case loop_body e delay i song st w of
        Inl x \<Rightarrow> []
      | Inr ((Break, st1), w1) \<Rightarrow> [(st1, w1)]
      | Inr ((Continue, st1), w1) \<Rightarrow> (st1, w1) # batch_hist e delay rest st1 w1)"

section \<open>Concrete inputs\<close>

text \<open>
  A scripted client answers its \<open>n\<close>-th call with the \<open>n\<close>-th entry of the script, and
  accepts every call after the script's end.
\<close>

definition scripted :: "outcome list \<Rightarrow> nat \<Rightarrow> scrobble_call \<Rightarrow> outcome" where
  "scripted script n c = (if n < length script then script ! n else Ok)"

definition env_of :: "(nat \<Rightarrow> scrobble_call \<Rightarrow> outcome) \<Rightarrow> env" where
  "env_of net = \<lparr>network = net, uniform = (\<lambda>n. 1 / 10)\<rparr>"

definition unavailable :: outcome where
  "unavailable = Raise WSError ''Service Unavailable 503''"

definition refused :: outcome where
  "refused = Raise NetworkError ''NetworkError: [Errno 111] Connection refused''"

definition rejected :: outcome where
  "rejected = Raise WSError ''Invalid parameters''"

definition crashed :: outcome where
  "crashed = Raise OtherException ''internal''"

definition song0 :: song where
  "song0 = [(''artistName'', JStr ''Low''), (''trackName'', JStr ''Words'')]"

definition call0 :: scrobble_call where
  "call0 = \<lparr>artist = JStr ''Low'', title = JStr ''Words'',
            timestamp = JInt 1767253534, album = JStr []\<rparr>"

definition world0 :: world where
  "world0 = \<lparr>ncalls = 0, draws = 0, trace = [], scrobbled_files = [], json_files = Map.empty\<rparr>"

section \<open>The retry operation\<close>

text \<open>
  C9. With \<open>max_retries = 0\<close> the retry operation calls the service zero times, does not
  sleep (the world it returns is the world it got), and returns failure with the
  message "Max retries exceeded".
\<close>

theorem scrobble_with_retry_zero:
  "scrobble_with_retry e song 0 w = Inr ((False, Some ''Max retries exceeded''), w)"
  by (simp add: scrobble_with_retry_def)

subsection \<open>One attempt, and a run of retried attempts\<close>

lemma py_sleep_wait_time:
  "py_sleep (real_of_int (wait_time a)) w =
     Inr (w\<lparr>trace := trace w @ [Sleep (real_of_int (wait_time a))]\<rparr>)"
  by (simp add: py_sleep_def wait_time_def min_def not_less)

lemma retry_loop_transient_step:
  assumes "call_args song = Inr c" "is_transient (network e (ncalls w) c)"
    "int attempt < max_retries - 1"
  shows "retry_loop e song max_retries (attempt # rest) w =
         retry_loop e song max_retries rest
           (w\<lparr>ncalls := ncalls w + 1,
              trace := trace w @ [Call c, Sleep (real_of_int (wait_time attempt))]\<rparr>)"
  using assms
  by (auto simp: is_transient_def py_sleep_wait_time split: outcome.splits)

lemma backoff_events_0: "backoff_events c a 0 = []"
  by (simp add: backoff_events_def)

lemma backoff_events_Suc:
  "backoff_events c a (Suc k) =
     [Call c, Sleep (real_of_int (wait_time a))] @ backoff_events c (Suc a) k"
proof -
  have "[a..<a + Suc k] = a # [Suc a..<Suc a + k]"
    by (simp add: upt_conv_Cons del: upt_Suc)
  then show ?thesis
    unfolding backoff_events_def by simp
qed

lemma retry_loop_transients:
  assumes "call_args song = Inr c"
    "\<forall>j<k. is_transient (network e (ncalls w + j) c)"
    "int a + int k \<le> max_retries - 1"
  shows "retry_loop e song max_retries ([a..<a + k] @ rest) w =
         retry_loop e song max_retries rest
           (w\<lparr>ncalls := ncalls w + k, trace := trace w @ backoff_events c a k\<rparr>)"
  using assms
proof (induction k arbitrary: a w)
  case 0
  then show ?case by (simp add: backoff_events_0)
next
  case (Suc k)
  let ?w1 = "w\<lparr>ncalls := ncalls w + 1,
              trace := trace w @ [Call c, Sleep (real_of_int (wait_time a))]\<rparr>"
  have first: "is_transient (network e (ncalls w) c)"
    using Suc.prems(2)[rule_format, of 0] by simp
  have later: "\<forall>j<k. is_transient (network e (ncalls ?w1 + j) c)"
  proof (intro allI impI)
    fix j assume "j < k"
    then have "Suc j < Suc k" by simp
    from Suc.prems(2)[rule_format, OF this] show "is_transient (network e (ncalls ?w1 + j) c)"
      by simp
  qed
  have "[a..<a + Suc k] @ rest = a # ([Suc a..<Suc a + k] @ rest)"
    by (simp add: upt_conv_Cons del: upt_Suc)
  then have "retry_loop e song max_retries ([a..<a + Suc k] @ rest) w =
        retry_loop e song max_retries ([Suc a..<Suc a + k] @ rest) ?w1"
    using retry_loop_transient_step[OF Suc.prems(1) first, of a max_retries] Suc.prems(3)
    by simp
  also have "\<dots> = retry_loop e song max_retries rest
           (?w1\<lparr>ncalls := ncalls ?w1 + k, trace := trace ?w1 @ backoff_events c (Suc a) k\<rparr>)"
    using Suc.IH[OF Suc.prems(1) later, of "Suc a"] Suc.prems(3) by simp
  finally show ?case by (simp add: backoff_events_Suc)
qed

lemma retry_loop_ok:
  assumes "call_args song = Inr c" "network e (ncalls w) c = Ok"
  shows "retry_loop e song max_retries (attempt # rest) w =
         Inr ((True, None), w\<lparr>ncalls := ncalls w + 1, trace := trace w @ [Call c]\<rparr>)"
  using assms by simp

lemma retry_loop_exhausted:
  assumes "call_args song = Inr c" "is_transient (network e (ncalls w) c)"
    "\<not> int attempt < max_retries - 1"
  shows "retry_loop e song max_retries (attempt # rest) w =
         Inr ((False, Some (''Server error after '' @ show_int max_retries @ '' attempts: ''
                             @ error_text (network e (ncalls w) c))),
              w\<lparr>ncalls := ncalls w + 1, trace := trace w @ [Call c]\<rparr>)"
  using assms by (auto simp: is_transient_def error_text_def split: outcome.splits)

lemma retry_loop_permanent:
  assumes "call_args song = Inr c" "is_permanent (network e (ncalls w) c)"
  shows "retry_loop e song max_retries (attempt # rest) w =
         Inr ((False, Some (''API error: '' @ error_text (network e (ncalls w) c))),
              w\<lparr>ncalls := ncalls w + 1, trace := trace w @ [Call c]\<rparr>)"
  using assms by (auto simp: is_permanent_def error_text_def split: outcome.splits)

lemma retry_loop_uncategorized:
  assumes "call_args song = Inr c" "is_uncategorized (network e (ncalls w) c)"
  shows "retry_loop e song max_retries (attempt # rest) w =
         Inr ((False, Some (''Unexpected error: '' @ error_text (network e (ncalls w) c))),
              w\<lparr>ncalls := ncalls w + 1, trace := trace w @ [Call c]\<rparr>)"
  using assms by (auto simp: is_uncategorized_def error_text_def split: outcome.splits)

lemma retry_loop_key_error:
  assumes "call_args song = Inl k"
  shows "retry_loop e song max_retries (attempt # rest) w =
         Inr ((False, Some (''Unexpected error: '' @ key_error_str k)), w)"
  using assms by simp

lemma sleeps_of_append: "sleeps_of (xs @ ys) = sleeps_of xs @ sleeps_of ys"
  by (induction xs rule: sleeps_of.induct) simp_all

lemma calls_of_append: "calls_of (xs @ ys) = calls_of xs @ calls_of ys"
  by (induction xs rule: calls_of.induct) simp_all

lemma sleeps_of_backoff_events:
  "sleeps_of (backoff_events c a k) = map (\<lambda>n. real_of_int (min 60 (2 ^ n))) [a + 1..<a + k + 1]"
proof (induction k arbitrary: a)
  case 0
  then show ?case by (simp add: backoff_events_0)
next
  case (Suc k)
  have "[a + 1..<a + Suc k + 1] = (a + 1) # [Suc a + 1..<Suc a + k + 1]"
    by (simp add: upt_conv_Cons del: upt_Suc)
  then show ?case
    using Suc.IH[of "Suc a"] by (simp add: backoff_events_Suc wait_time_def del: upt_Suc)
qed

lemma calls_of_backoff_events: "calls_of (backoff_events c a k) = replicate k c"
  by (induction k arbitrary: a) (simp_all add: backoff_events_0 backoff_events_Suc)

lemma scrobble_with_retry_prefix:
  assumes "call_args song = Inr c"
    and "k < nat max_retries"
    and "\<forall>j<k. is_transient (network e (ncalls w + j) c)"
  shows "scrobble_with_retry e song max_retries w =
         retry_loop e song max_retries (k # [Suc k..<nat max_retries])
           (w\<lparr>ncalls := ncalls w + k, trace := trace w @ backoff_events c 0 k\<rparr>)"
proof -
  have remain: "int 0 + int k \<le> max_retries - 1"
    using assms(2) by simp
  have "[0..<nat max_retries] = [0..<0 + k] @ (k # [Suc k..<nat max_retries])"
    using assms(2)
    by (metis add_0 le0 upt_add_eq_append upt_conv_Cons le_add_diff_inverse less_imp_le_nat)
  then have "scrobble_with_retry e song max_retries w =
        retry_loop e song max_retries ([0..<0 + k] @ (k # [Suc k..<nat max_retries])) w"
    by (simp add: scrobble_with_retry_def)
  also have "\<dots> = retry_loop e song max_retries (k # [Suc k..<nat max_retries])
           (w\<lparr>ncalls := ncalls w + k, trace := trace w @ backoff_events c 0 k\<rparr>)"
    by (rule retry_loop_transients[OF assms(1) assms(3) remain])
  finally show ?thesis .
qed

text \<open>
  C2. When the client fails transiently on the first \<open>k\<close> attempts, \<open>k < max_retries\<close>, and
  then accepts the call, the retry operation returns success; the events it adds are
  \<open>k\<close> times a call and a sleep, then the last call, and the sleeps are
  \<open>min 60 (2 ^ n)\<close> for \<open>n = 1..k\<close>. When the attempt after those \<open>k\<close> is the last one and
  fails transiently too, it returns failure with the message
  "Server error after \<open>max_retries\<close> attempts: \<open>last error\<close>".
\<close>

theorem scrobble_with_retry_backoff:
  assumes "call_args song = Inr c"
    and "k < nat max_retries"
    and "\<forall>j<k. is_transient (network e (ncalls w + j) c)"
  shows "(network e (ncalls w + k) c = Ok \<longrightarrow>
            scrobble_with_retry e song max_retries w =
              Inr ((True, None),
                   w\<lparr>ncalls := ncalls w + k + 1,
                      trace := trace w @ backoff_events c 0 k @ [Call c]\<rparr>)) \<and>
         (is_transient (network e (ncalls w + k) c) \<and> Suc k = nat max_retries \<longrightarrow>
            scrobble_with_retry e song max_retries w =
              Inr ((False, Some (''Server error after '' @ show_int max_retries @ '' attempts: ''
                                  @ error_text (network e (ncalls w + k) c))),
                   w\<lparr>ncalls := ncalls w + k + 1,
                      trace := trace w @ backoff_events c 0 k @ [Call c]\<rparr>)) \<and>
         sleeps_of (backoff_events c 0 k @ [Call c]) =
           map (\<lambda>n. real_of_int (min 60 (2 ^ n))) [1..<k + 1]"
proof -
  let ?w = "w\<lparr>ncalls := ncalls w + k, trace := trace w @ backoff_events c 0 k\<rparr>"
  note run = scrobble_with_retry_prefix[OF assms]
  have ok: "network e (ncalls w + k) c = Ok \<Longrightarrow>
            scrobble_with_retry e song max_retries w =
              Inr ((True, None),
                   w\<lparr>ncalls := ncalls w + k + 1,
                      trace := trace w @ backoff_events c 0 k @ [Call c]\<rparr>)"
    using retry_loop_ok[OF assms(1), of e ?w max_retries k] run by simp
  have ex: "is_transient (network e (ncalls w + k) c) \<Longrightarrow> Suc k = nat max_retries \<Longrightarrow>
            scrobble_with_retry e song max_retries w =
              Inr ((False, Some (''Server error after '' @ show_int max_retries @ '' attempts: ''
                                  @ error_text (network e (ncalls w + k) c))),
                   w\<lparr>ncalls := ncalls w + k + 1,
                      trace := trace w @ backoff_events c 0 k @ [Call c]\<rparr>)"
  proof -
    assume t: "is_transient (network e (ncalls w + k) c)" and last: "Suc k = nat max_retries"
    have t': "is_transient (network e (ncalls ?w) c)" using t by simp
    have no: "\<not> int k < max_retries - 1" using last by linarith
    show ?thesis
      using retry_loop_exhausted[OF assms(1) t' no] run by simp
  qed
  have sl: "sleeps_of (backoff_events c 0 k @ [Call c]) =
           map (\<lambda>n. real_of_int (min 60 (2 ^ n))) [1..<k + 1]"
    using sleeps_of_backoff_events[of c 0 k] by (simp add: sleeps_of_append)
  show ?thesis using ok ex sl by blast
qed

subsection \<open>The concrete inputs, evaluated\<close>

lemma call_args_song0: "call_args song0 = Inr call0"
  by (simp add: call_args_def song0_def call0_def)

lemma is_transient_unavailable: "is_transient unavailable"
  by (simp add: unavailable_def is_transient_def is_transient_text_def lower_def lower_char_def
      triggers_def sublist_Cons_right)

lemma is_permanent_refused: "is_permanent refused"
  by (simp add: refused_def is_permanent_def is_transient_text_def lower_def lower_char_def
      triggers_def sublist_Cons_right)

lemma is_uncategorized_crashed: "is_uncategorized crashed"
  by (simp add: crashed_def is_uncategorized_def)

lemma backoff_events_eval:
  "backoff_events c 0 (Suc 0) = [Call c, Sleep 2]"
  "backoff_events c 0 2 = [Call c, Sleep 2, Call c, Sleep 4]"
  "backoff_events c 0 3 = [Call c, Sleep 2, Call c, Sleep 4, Call c, Sleep 8]"
  by (simp_all add: backoff_events_def wait_time_def upt_rec)

theorem scrobble_with_retry_backoff_witness:
  "scrobble_with_retry (env_of (scripted [unavailable, unavailable, unavailable])) song0 5 world0 =
     Inr ((True, None),
          world0\<lparr>ncalls := 4,
                 trace := [Call call0, Sleep 2, Call call0, Sleep 4, Call call0, Sleep 8,
                           Call call0]\<rparr>) \<and>
   scrobble_with_retry (env_of (scripted [unavailable, unavailable, unavailable])) song0 3 world0 =
     Inr ((False, Some ''Server error after 3 attempts: Service Unavailable 503''),
          world0\<lparr>ncalls := 3,
                 trace := [Call call0, Sleep 2, Call call0, Sleep 4, Call call0]\<rparr>) \<and>
   sleeps_of [Call call0, Sleep 2, Call call0, Sleep 4, Call call0, Sleep 8, Call call0] =
     [2, 4, 8]"
proof -
  let ?e = "env_of (scripted [unavailable, unavailable, unavailable])"
  have h1: "\<forall>j<3. is_transient (network ?e (ncalls world0 + j) call0)"
    by (simp add: env_of_def scripted_def is_transient_unavailable world0_def nth_Cons')
  have h2: "\<forall>j<2. is_transient (network ?e (ncalls world0 + j) call0)"
    by (simp add: env_of_def scripted_def is_transient_unavailable world0_def nth_Cons')
  have a: "scrobble_with_retry ?e song0 5 world0 =
     Inr ((True, None),
          world0\<lparr>ncalls := 4,
                 trace := [Call call0, Sleep 2, Call call0, Sleep 4, Call call0, Sleep 8,
                           Call call0]\<rparr>)"
    using scrobble_with_retry_backoff[OF call_args_song0 _ h1, of 5]
    by (simp add: env_of_def scripted_def world0_def backoff_events_eval)
  have b: "scrobble_with_retry ?e song0 3 world0 =
     Inr ((False, Some ''Server error after 3 attempts: Service Unavailable 503''),
          world0\<lparr>ncalls := 3,
                 trace := [Call call0, Sleep 2, Call call0, Sleep 4, Call call0]\<rparr>)"
    using scrobble_with_retry_backoff[OF call_args_song0 _ h2, of 3]
    using is_transient_unavailable
    by (simp add: env_of_def scripted_def world0_def backoff_events_eval
        error_text_def show_int_def unavailable_def eval_nat_numeral
        backoff_events_0 backoff_events_Suc wait_time_def)
  show ?thesis using a b by simp
qed

text \<open>
  C1, as the code has it. A network error whose text holds none of the five triggers is
  not retried: with five attempts allowed, the first refused connection ends the
  operation after one call and no sleep.
\<close>

theorem network_error_not_retried:
  "scrobble_with_retry (env_of (scripted [refused, Ok])) song0 5 world0 =
     Inr ((False, Some ''API error: NetworkError: [Errno 111] Connection refused''),
          world0\<lparr>ncalls := 1, trace := [Call call0]\<rparr>)"
  by (simp add: scrobble_with_retry_def upt_rec call_args_song0 env_of_def scripted_def
      refused_def world0_def is_transient_text_def lower_def lower_char_def triggers_def
      sublist_Cons_right)

text \<open>
  C1, amended. An error of one of the three pylast classes (network error, malformed
  response, service error) whose lower-cased text holds one of 502, 500, 503, timeout or
  rate limit is retried when attempts remain: the operation sleeps
  \<open>min 60 (2 ^ (attempt + 1))\<close> seconds and goes on with the next attempt.
\<close>

theorem transient_error_retried:
  assumes "call_args song = Inr c"
    and "network e (ncalls w) c = Raise cls msg"
    and "cls = NetworkError \<or> cls = MalformedResponseError \<or> cls = WSError"
    and "is_transient_text (lower msg)"
    and "int attempt < max_retries - 1"
  shows "retry_loop e song max_retries (attempt # rest) w =
         retry_loop e song max_retries rest
           (w\<lparr>ncalls := ncalls w + 1,
              trace := trace w @ [Call c, Sleep (real_of_int (min 60 (2 ^ (attempt + 1))))]\<rparr>)"
proof -
  have "is_transient (network e (ncalls w) c)"
    using assms(2,3,4) by (auto simp: is_transient_def)
  from retry_loop_transient_step[OF assms(1) this assms(5)] show ?thesis
    by (simp add: wait_time_def)
qed

theorem transient_error_retried_witness:
  "retry_loop (env_of (scripted [unavailable])) song0 5 [0, 1, 2, 3, 4] world0 =
   retry_loop (env_of (scripted [unavailable])) song0 5 [1, 2, 3, 4]
     (world0\<lparr>ncalls := 1, trace := [Call call0, Sleep 2]\<rparr>)"
proof -
  have r: "network (env_of (scripted [unavailable])) (ncalls world0) call0 =
           Raise WSError ''Service Unavailable 503''"
    by (simp add: env_of_def scripted_def world0_def unavailable_def)
  have t: "is_transient_text (lower ''Service Unavailable 503'')"
    using is_transient_unavailable by (simp add: is_transient_def unavailable_def)
  show ?thesis
    using transient_error_retried[OF call_args_song0 r _ t, of 0 5 "[1, 2, 3, 4]"]
    by (simp add: world0_def)
qed

text \<open>
  C5. Whatever number \<open>k\<close> of transient failures came before, an attempt that fails with
  a permanent error (a pylast error with no trigger in its text) or with an
  uncategorized exception ends the operation: it returns failure, the call of that
  attempt is the last event, no sleep and no attempt follows. With \<open>k = 0\<close> that is one
  call and no sleep at all. The uncategorized case has the message "Unexpected error:"
  and the exception's text; so has a KeyError for a missing required key, which is raised
  before the service is called.
\<close>

theorem permanent_error_not_retried:
  "(call_args song = Inr c \<and> k < nat max_retries \<and>
    (\<forall>j<k. is_transient (network e (ncalls w + j) c)) \<longrightarrow>
      (is_permanent (network e (ncalls w + k) c) \<longrightarrow>
         scrobble_with_retry e song max_retries w =
           Inr ((False, Some (''API error: '' @ error_text (network e (ncalls w + k) c))),
                w\<lparr>ncalls := ncalls w + k + 1,
                   trace := trace w @ backoff_events c 0 k @ [Call c]\<rparr>)) \<and>
      (is_uncategorized (network e (ncalls w + k) c) \<longrightarrow>
         scrobble_with_retry e song max_retries w =
           Inr ((False, Some (''Unexpected error: '' @ error_text (network e (ncalls w + k) c))),
                w\<lparr>ncalls := ncalls w + k + 1,
                   trace := trace w @ backoff_events c 0 k @ [Call c]\<rparr>))) \<and>
   (call_args song = Inl key \<and> 0 < max_retries \<longrightarrow>
      scrobble_with_retry e song max_retries w =
        Inr ((False, Some (''Unexpected error: '' @ key_error_str key)), w))"
proof (intro conjI impI)
  assume h: "call_args song = Inr c \<and> k < nat max_retries \<and>
    (\<forall>j<k. is_transient (network e (ncalls w + j) c))"
  let ?w = "w\<lparr>ncalls := ncalls w + k, trace := trace w @ backoff_events c 0 k\<rparr>"
  from h have args: "call_args song = Inr c" and
    run: "scrobble_with_retry e song max_retries w =
          retry_loop e song max_retries (k # [Suc k..<nat max_retries]) ?w"
    using scrobble_with_retry_prefix[of song c k max_retries e w] by simp_all
  {
    assume "is_permanent (network e (ncalls w + k) c)"
    then have "is_permanent (network e (ncalls ?w) c)" by simp
    from retry_loop_permanent[OF args this]
    show "scrobble_with_retry e song max_retries w =
           Inr ((False, Some (''API error: '' @ error_text (network e (ncalls w + k) c))),
                w\<lparr>ncalls := ncalls w + k + 1,
                   trace := trace w @ backoff_events c 0 k @ [Call c]\<rparr>)"
      using run by simp
  }
  {
    assume "is_uncategorized (network e (ncalls w + k) c)"
    then have "is_uncategorized (network e (ncalls ?w) c)" by simp
    from retry_loop_uncategorized[OF args this]
    show "scrobble_with_retry e song max_retries w =
           Inr ((False, Some (''Unexpected error: '' @ error_text (network e (ncalls w + k) c))),
                w\<lparr>ncalls := ncalls w + k + 1,
                   trace := trace w @ backoff_events c 0 k @ [Call c]\<rparr>)"
      using run by simp
  }
next
  assume h: "call_args song = Inl key \<and> 0 < max_retries"
  then have "[0..<nat max_retries] = 0 # [1..<nat max_retries]"
    by (simp add: upt_conv_Cons)
  then show "scrobble_with_retry e song max_retries w =
        Inr ((False, Some (''Unexpected error: '' @ key_error_str key)), w)"
    using h retry_loop_key_error[of song key] by (simp add: scrobble_with_retry_def)
qed

theorem permanent_error_not_retried_witness:
  "scrobble_with_retry (env_of (scripted [refused])) song0 5 world0 =
     Inr ((False, Some ''API error: NetworkError: [Errno 111] Connection refused''),
          world0\<lparr>ncalls := 1, trace := [Call call0]\<rparr>) \<and>
   scrobble_with_retry (env_of (scripted [unavailable, crashed])) song0 5 world0 =
     Inr ((False, Some ''Unexpected error: internal''),
          world0\<lparr>ncalls := 2, trace := [Call call0, Sleep 2, Call call0]\<rparr>) \<and>
   scrobble_with_retry (env_of (scripted [])) [(''trackName'', JStr ''Words'')] 5 world0 =
     Inr ((False, Some (''Unexpected error: '' @ [CHR 0x27] @ ''artistName'' @ [CHR 0x27])),
          world0)"
proof -
  have p: "is_permanent (network (env_of (scripted [refused])) (ncalls world0 + 0) call0)"
    using is_permanent_refused by (simp add: env_of_def scripted_def world0_def)
  have a: "scrobble_with_retry (env_of (scripted [refused])) song0 5 world0 =
     Inr ((False, Some ''API error: NetworkError: [Errno 111] Connection refused''),
          world0\<lparr>ncalls := 1, trace := [Call call0]\<rparr>)"
    using permanent_error_not_retried[of song0 call0 0 5 "env_of (scripted [refused])" world0]
      call_args_song0 p
    by (simp add: env_of_def scripted_def world0_def backoff_events_0 error_text_def refused_def)
  let ?e = "env_of (scripted [unavailable, crashed])"
  have t: "\<forall>j<1. is_transient (network ?e (ncalls world0 + j) call0)"
    using is_transient_unavailable by (simp add: env_of_def scripted_def world0_def)
  have u: "is_uncategorized (network ?e (ncalls world0 + 1) call0)"
    using is_uncategorized_crashed by (simp add: env_of_def scripted_def world0_def)
  have b: "scrobble_with_retry ?e song0 5 world0 =
     Inr ((False, Some ''Unexpected error: internal''),
          world0\<lparr>ncalls := 2, trace := [Call call0, Sleep 2, Call call0]\<rparr>)"
    using permanent_error_not_retried[of song0 call0 1 5 ?e world0] call_args_song0 t u
    by (simp add: env_of_def scripted_def world0_def backoff_events_eval error_text_def
        crashed_def)
  have k: "call_args [(''trackName'', JStr ''Words'')] = Inl ''artistName''"
    by (simp add: call_args_def)
  have c: "scrobble_with_retry (env_of (scripted [])) [(''trackName'', JStr ''Words'')] 5 world0 =
     Inr ((False, Some (''Unexpected error: '' @ [CHR 0x27] @ ''artistName'' @ [CHR 0x27])),
          world0)"
    using permanent_error_not_retried[of "[(''trackName'', JStr ''Words'')]" _ _ 5 _ _
        "''artistName''"] k
    by (simp add: key_error_str_def)
  show ?thesis using a b c by simp
qed

section \<open>The batch loop\<close>

subsection \<open>The retry operation always returns\<close>

lemma retry_loop_returns:
  "\<exists>ok msg w'. retry_loop e song max_retries attempts w = Inr ((ok, msg), w') \<and>
     (ok \<longrightarrow> msg = None) \<and> (\<not> ok \<longrightarrow> msg \<noteq> None) \<and>
     draws w' = draws w \<and> scrobbled_files w' = scrobbled_files w \<and>
     json_files w' = json_files w"
proof (induction attempts arbitrary: w)
  case Nil
  then show ?case by auto
next
  case (Cons attempt rest)
  show ?case
  proof (cases "call_args song")
    case (Inl k)
    then show ?thesis by auto
  next
    case (Inr c)
    let ?w1 = "w\<lparr>ncalls := ncalls w + 1, trace := trace w @ [Call c]\<rparr>"
    let ?w2 = "?w1\<lparr>trace := trace ?w1 @ [Sleep (real_of_int (wait_time attempt))]\<rparr>"
    show ?thesis
    proof (cases "network e (ncalls w) c")
      case Ok
      with Inr show ?thesis by auto
    next
      case (Raise cls emsg)
      show ?thesis
      proof (cases "cls \<noteq> OtherException \<and> is_transient_text (lower emsg) \<and>
                    int attempt < max_retries - 1")
        case True
        with Inr Raise have "retry_loop e song max_retries (attempt # rest) w =
            retry_loop e song max_retries rest ?w2"
          by (simp add: py_sleep_wait_time)
        with Cons.IH[of ?w2] show ?thesis by simp
      next
        case False
        with Inr Raise show ?thesis by (auto simp: Let_def)
      qed
    qed
  qed
qed

lemma scrobble_with_retry_returns:
  "\<exists>ok msg w'. scrobble_with_retry e song max_retries w = Inr ((ok, msg), w') \<and>
     (ok \<longrightarrow> msg = None) \<and> (\<not> ok \<longrightarrow> msg \<noteq> None) \<and>
     draws w' = draws w \<and> scrobbled_files w' = scrobbled_files w \<and>
     json_files w' = json_files w"
  unfolding scrobble_with_retry_def by (rule retry_loop_returns)

subsection \<open>One iteration, and the states after each iteration\<close>

lemma call_args_keys:
  assumes "call_args song = Inr c"
  shows "map_of song ''artistName'' \<noteq> None" "map_of song ''trackName'' \<noteq> None"
  using assms by (auto simp: call_args_def split: option.splits)

lemma on_failure_result:
  assumes "on_failure song msg st w = Inr (st1, w1)"
  shows "st1 = st\<lparr>error_count := error_count st + 1,
                  consecutive_errors := consecutive_errors st + 1,
                  failed_songs := failed_songs st @ [with_error song msg]\<rparr>"
  using assms
  by (auto simp: on_failure_def Let_def py_sleep_def split: option.splits if_splits)

lemma throttle_result:
  assumes "throttle e delay i st w = Inr ((fl, st1), w1)"
  shows "st1 = st \<and> (fl = Break \<longleftrightarrow> consecutive_errors st > 10)"
  using assms
  by (auto simp: throttle_def py_sleep_def split: if_splits)

lemma loop_body_step:
  assumes "loop_body e delay i song st w = Inr ((fl, st1), w1)"
  shows "\<exists>ok msg w'. scrobble_with_retry e song 5 w = Inr ((ok, msg), w') \<and>
           (ok \<longrightarrow> st1 = st\<lparr>success_count := success_count st + 1, consecutive_errors := 0\<rparr>) \<and>
           (\<not> ok \<longrightarrow> (\<exists>m. msg = Some m) \<and>
                     st1 = st\<lparr>error_count := error_count st + 1,
                             consecutive_errors := consecutive_errors st + 1,
                             failed_songs := failed_songs st @ [with_error song msg]\<rparr>) \<and>
           (fl = Break \<longleftrightarrow> consecutive_errors st1 > 10)"
proof -
  obtain ok msg w' where r: "scrobble_with_retry e song 5 w = Inr ((ok, msg), w')"
    and m: "\<not> ok \<longrightarrow> msg \<noteq> None"
    using scrobble_with_retry_returns[of e song 5 w] by blast
  show ?thesis
  proof (cases ok)
    case True
    with assms r have "throttle e delay i
        (st\<lparr>success_count := success_count st + 1, consecutive_errors := 0\<rparr>) w' =
        Inr ((fl, st1), w1)"
      by (simp add: loop_body_def)
    from throttle_result[OF this] r True show ?thesis
      by (intro exI[of _ ok] exI[of _ msg] exI[of _ w']) simp
  next
    case False
    with assms r obtain st2 w2 where f: "on_failure song msg st w' = Inr (st2, w2)"
      and t: "throttle e delay i st2 w2 = Inr ((fl, st1), w1)"
      by (auto simp: loop_body_def split: sum.splits)
    from on_failure_result[OF f] throttle_result[OF t] r False m show ?thesis
      by (intro exI[of _ ok] exI[of _ msg] exI[of _ w']) auto
  qed
qed

lemma batch_hist_length: "length (batch_hist e delay items st w) \<le> length items"
proof (induction items arbitrary: st w)
  case Nil
  then show ?case by simp
next
  case (Cons it rest)
  obtain i song where it: "it = (i, song)" by (cases it)
  show ?case
    using Cons.IH unfolding it
    by (auto split: sum.splits flow.splits prod.splits simp: le_SucI)
qed

lemma batch_loop_last:
  "batch_loop e delay items st w = Inr r \<Longrightarrow> r = last ((st, w) # batch_hist e delay items st w)"
proof (induction items arbitrary: st w)
  case Nil
  then show ?case by simp
next
  case (Cons it rest)
  obtain i song where it: "it = (i, song)" by (cases it)
  show ?case
  proof (cases "loop_body e delay i song st w")
    case (Inl x)
    with Cons.prems it show ?thesis by simp
  next
    case (Inr y)
    obtain fl st1 w1 where y: "y = ((fl, st1), w1)" by (cases y) auto
    show ?thesis
    proof (cases fl)
      case Continue
      with Cons.prems it Inr y have "batch_loop e delay rest st1 w1 = Inr r" by simp
      from Cons.IH[OF this] it Inr y Continue show ?thesis by simp
    next
      case Break
      with Cons.prems it Inr y show ?thesis by simp
    qed
  qed
qed

lemma batch_hist_step:
  assumes "n < length (batch_hist e delay items st w)"
  shows "\<exists>fl. loop_body e delay (fst (items ! n)) (snd (items ! n))
            (fst (((st, w) # batch_hist e delay items st w) ! n))
            (snd (((st, w) # batch_hist e delay items st w) ! n)) =
          Inr ((fl, fst (batch_hist e delay items st w ! n)),
               snd (batch_hist e delay items st w ! n))"
  using assms
proof (induction items arbitrary: st w n)
  case Nil
  then show ?case by simp
next
  case (Cons it rest)
  obtain i song where it: "it = (i, song)" by (cases it)
  show ?case
  proof (cases "loop_body e delay i song st w")
    case (Inl x)
    with Cons.prems it show ?thesis by simp
  next
    case (Inr y)
    obtain fl st1 w1 where y: "y = ((fl, st1), w1)" by (cases y) auto
    show ?thesis
    proof (cases n)
      case 0
      with it Inr y show ?thesis by (cases fl) auto
    next
      case (Suc m)
      show ?thesis
      proof (cases fl)
        case Continue
        with Cons.prems it Inr y Suc have "m < length (batch_hist e delay rest st1 w1)"
          by simp
        from Cons.IH[OF this] it Inr y Continue Suc show ?thesis by simp
      next
        case Break
        with Cons.prems it Inr y Suc show ?thesis by simp
      qed
    qed
  qed
qed

lemma loop_body_counts:
  assumes "loop_body e delay i song st w = Inr ((fl, st1), w1)"
  shows "(success_count st1 = success_count st + 1 \<and> error_count st1 = error_count st \<or>
          success_count st1 = success_count st \<and> error_count st1 = error_count st + 1) \<and>
         error_count st1 - int (length (failed_songs st1)) =
           error_count st - int (length (failed_songs st))"
  using loop_body_step[OF assms] by auto

lemma batch_hist_prev:
  assumes "n < length (batch_hist e delay items st w)"
  shows "\<exists>fl i song. loop_body e delay i song
            (fst (((st, w) # batch_hist e delay items st w) ! n))
            (snd (((st, w) # batch_hist e delay items st w) ! n)) =
          Inr ((fl, fst (batch_hist e delay items st w ! n)),
               snd (batch_hist e delay items st w ! n))"
  using batch_hist_step[OF assms] by blast

lemma batch_hist_counts:
  assumes "n < length (batch_hist e delay items st w)"
  shows "success_count (fst (batch_hist e delay items st w ! n)) +
         error_count (fst (batch_hist e delay items st w ! n)) =
           success_count st + error_count st + int (n + 1) \<and>
         error_count (fst (batch_hist e delay items st w ! n)) -
           int (length (failed_songs (fst (batch_hist e delay items st w ! n)))) =
           error_count st - int (length (failed_songs st))"
  using assms
proof (induction n)
  case 0
  from batch_hist_prev[OF 0] obtain fl i song where
    "loop_body e delay i song st w =
       Inr ((fl, fst (batch_hist e delay items st w ! 0)), snd (batch_hist e delay items st w ! 0))"
    by auto
  from loop_body_counts[OF this] show ?case by auto
next
  case (Suc n)
  then have n: "n < length (batch_hist e delay items st w)" by simp
  from batch_hist_prev[OF Suc.prems] obtain fl i song where
    "loop_body e delay i song (fst (batch_hist e delay items st w ! n))
        (snd (batch_hist e delay items st w ! n)) =
       Inr ((fl, fst (batch_hist e delay items st w ! Suc n)),
            snd (batch_hist e delay items st w ! Suc n))"
    by auto
  from loop_body_counts[OF this] Suc.IH[OF n] show ?case by auto
qed

text \<open>
  C4. After each item the loop has processed, exactly one of the two counters has gone up
  by one, and their sum is the number of items processed so far. The loop processes at
  most the items it was given, and what it returns (at a halt or at the end of the list)
  has a sum equal to the number of items processed: skipped items are in neither
  counter.
\<close>

theorem counters_count_processed_items:
  "(\<forall>n < length (batch_hist e delay (enumerate 0 songs) init_state w).
      success_count (fst (batch_hist e delay (enumerate 0 songs) init_state w ! n)) +
      error_count (fst (batch_hist e delay (enumerate 0 songs) init_state w ! n)) = int (n + 1) \<and>
      (success_count (fst (batch_hist e delay (enumerate 0 songs) init_state w ! n)) =
         success_count (fst (((init_state, w) #
           batch_hist e delay (enumerate 0 songs) init_state w) ! n)) + 1 \<and>
       error_count (fst (batch_hist e delay (enumerate 0 songs) init_state w ! n)) =
         error_count (fst (((init_state, w) #
           batch_hist e delay (enumerate 0 songs) init_state w) ! n)) \<or>
       success_count (fst (batch_hist e delay (enumerate 0 songs) init_state w ! n)) =
         success_count (fst (((init_state, w) #
           batch_hist e delay (enumerate 0 songs) init_state w) ! n)) \<and>
       error_count (fst (batch_hist e delay (enumerate 0 songs) init_state w ! n)) =
         error_count (fst (((init_state, w) #
           batch_hist e delay (enumerate 0 songs) init_state w) ! n)) + 1)) \<and>
   length (batch_hist e delay (enumerate 0 songs) init_state w) \<le> length songs \<and>
   (batch_loop e delay (enumerate 0 songs) init_state w = Inr (st, w') \<longrightarrow>
      success_count st + error_count st =
        int (length (batch_hist e delay (enumerate 0 songs) init_state w)))"
proof -
  define hist where "hist = batch_hist e delay (enumerate 0 songs) init_state w"
  have zero: "success_count init_state + error_count init_state = 0"
    by (simp add: init_state_def)
  have points: "\<forall>n < length hist.
      success_count (fst (hist ! n)) + error_count (fst (hist ! n)) = int (n + 1) \<and>
      (success_count (fst (hist ! n)) = success_count (fst (((init_state, w) # hist) ! n)) + 1 \<and>
       error_count (fst (hist ! n)) = error_count (fst (((init_state, w) # hist) ! n)) \<or>
       success_count (fst (hist ! n)) = success_count (fst (((init_state, w) # hist) ! n)) \<and>
       error_count (fst (hist ! n)) = error_count (fst (((init_state, w) # hist) ! n)) + 1)"
  proof (intro allI impI)
    fix n assume n: "n < length hist"
    from batch_hist_prev[OF n[unfolded hist_def]] obtain fl i song where
      "loop_body e delay i song (fst (((init_state, w) # hist) ! n))
         (snd (((init_state, w) # hist) ! n)) = Inr ((fl, fst (hist ! n)), snd (hist ! n))"
      unfolding hist_def by auto
    from loop_body_counts[OF this] batch_hist_counts[OF n[unfolded hist_def]] zero
    show "success_count (fst (hist ! n)) + error_count (fst (hist ! n)) = int (n + 1) \<and>
      (success_count (fst (hist ! n)) = success_count (fst (((init_state, w) # hist) ! n)) + 1 \<and>
       error_count (fst (hist ! n)) = error_count (fst (((init_state, w) # hist) ! n)) \<or>
       success_count (fst (hist ! n)) = success_count (fst (((init_state, w) # hist) ! n)) \<and>
       error_count (fst (hist ! n)) = error_count (fst (((init_state, w) # hist) ! n)) + 1)"
      unfolding hist_def by simp
  qed
  have len: "length hist \<le> length songs"
    using batch_hist_length[of e delay "enumerate 0 songs" init_state w] by (simp add: hist_def)
  have final: "batch_loop e delay (enumerate 0 songs) init_state w = Inr (st, w') \<longrightarrow>
      success_count st + error_count st = int (length hist)"
  proof
    assume "batch_loop e delay (enumerate 0 songs) init_state w = Inr (st, w')"
    from batch_loop_last[OF this] have l: "(st, w') = last ((init_state, w) # hist)"
      by (simp add: hist_def)
    show "success_count st + error_count st = int (length hist)"
    proof (cases "hist = []")
      case True
      with l zero show ?thesis by simp
    next
      case False
      then have n: "length hist - 1 < length hist" by simp
      from False l have "(st, w') = hist ! (length hist - 1)"
        by (simp add: last_conv_nth)
      then have "st = fst (hist ! (length hist - 1))" by (metis fst_conv)
      with points[rule_format, OF n] False show ?thesis
        by (simp add: of_nat_diff Suc_leI)
    qed
  qed
  from points len final show ?thesis unfolding hist_def by blast
qed


lemma is_permanent_rejected: "is_permanent rejected"
  by (simp add: rejected_def is_permanent_def is_transient_text_def lower_def lower_char_def
      triggers_def sublist_Cons_right)

lemma map_of_song0:
  "map_of song0 ''artistName'' = Some (JStr ''Low'')"
  "map_of song0 ''trackName'' = Some (JStr ''Words'')"
  by (simp_all add: song0_def)

lemma scrobble_song0_rejected:
  "scrobble_with_retry (env_of (scripted [rejected])) song0 5 world0 =
     Inr ((False, Some ''API error: Invalid parameters''),
          world0\<lparr>ncalls := 1, trace := [Call call0]\<rparr>)"
  using is_permanent_rejected
  by (simp add: scrobble_with_retry_def upt_rec call_args_song0 env_of_def scripted_def
      rejected_def world0_def is_permanent_def)

lemma example_hist:
  "batch_hist (env_of (scripted [rejected])) (2 / 5) (enumerate 0 [song0, song0])
     init_state world0 =
   [(init_state\<lparr>error_count := 1, consecutive_errors := 1,
                 failed_songs := [song0 @ [(''error'', JStr ''API error: Invalid parameters'')]]\<rparr>,
     world0\<lparr>ncalls := 1, draws := 1, trace := [Call call0, Sleep (1 / 2)]\<rparr>),
    (init_state\<lparr>success_count := 1, error_count := 1, consecutive_errors := 0,
                 failed_songs := [song0 @ [(''error'', JStr ''API error: Invalid parameters'')]]\<rparr>,
     world0\<lparr>ncalls := 2, draws := 2,
            trace := [Call call0, Sleep (1 / 2), Call call0, Sleep (1 / 2)]\<rparr>)]"
proof -
  let ?e = "env_of (scripted [rejected])"
  let ?w1 = "world0\<lparr>ncalls := 1, draws := 1, trace := [Call call0, Sleep (1 / 2)]\<rparr>"
  have second: "scrobble_with_retry ?e song0 5 ?w1 =
     Inr ((True, None), ?w1\<lparr>ncalls := 2, trace := [Call call0, Sleep (1 / 2), Call call0]\<rparr>)"
    by (simp add: scrobble_with_retry_def upt_rec call_args_song0 env_of_def scripted_def
        world0_def)
  have we: "with_error song0 (Some ''API error: Invalid parameters'') =
            song0 @ [(''error'', JStr ''API error: Invalid parameters'')]"
    by (simp add: with_error_def song0_def)
  have b1: "loop_body ?e (2 / 5) 0 song0 init_state world0 =
      Inr ((Continue, init_state\<lparr>error_count := 1, consecutive_errors := 1,
                 failed_songs := [song0 @ [(''error'', JStr ''API error: Invalid parameters'')]]\<rparr>),
           ?w1)"
    unfolding loop_body_def scrobble_song0_rejected
    by (simp add: on_failure_def map_of_song0 we throttle_def py_sleep_def init_state_def
        world0_def env_of_def)
  have b2: "loop_body ?e (2 / 5) (Suc 0) song0
        (init_state\<lparr>error_count := 1, consecutive_errors := 1,
                 failed_songs := [song0 @ [(''error'', JStr ''API error: Invalid parameters'')]]\<rparr>)
        ?w1 =
      Inr ((Continue, init_state\<lparr>success_count := 1, error_count := 1, consecutive_errors := 0,
                 failed_songs := [song0 @ [(''error'', JStr ''API error: Invalid parameters'')]]\<rparr>),
           world0\<lparr>ncalls := 2, draws := 2,
            trace := [Call call0, Sleep (1 / 2), Call call0, Sleep (1 / 2)]\<rparr>)"
    unfolding loop_body_def second
    by (simp add: throttle_def py_sleep_def init_state_def world0_def env_of_def)
  show ?thesis
    by (simp only: enumerate_simps batch_hist.simps b1 b2 sum.case prod.case flow.case)
qed

theorem counters_count_processed_items_witness:
  "length (batch_hist (env_of (scripted [rejected])) (2 / 5) (enumerate 0 [song0, song0])
     init_state world0) = 2 \<and>
   success_count (fst (batch_hist (env_of (scripted [rejected])) (2 / 5)
     (enumerate 0 [song0, song0]) init_state world0 ! 1)) = 1 \<and>
   error_count (fst (batch_hist (env_of (scripted [rejected])) (2 / 5)
     (enumerate 0 [song0, song0]) init_state world0 ! 1)) = 1 \<and>
   success_count (fst (batch_hist (env_of (scripted [rejected])) (2 / 5)
     (enumerate 0 [song0, song0]) init_state world0 ! 1)) +
   error_count (fst (batch_hist (env_of (scripted [rejected])) (2 / 5)
     (enumerate 0 [song0, song0]) init_state world0 ! 1)) = int (1 + 1)"
proof -
  have n: "1 < length (batch_hist (env_of (scripted [rejected])) (2 / 5)
     (enumerate 0 [song0, song0]) init_state world0)"
    unfolding example_hist by simp
  from counters_count_processed_items[of "env_of (scripted [rejected])" "2 / 5"
      "[song0, song0]" world0, THEN conjunct1, rule_format, OF n]
  show ?thesis unfolding example_hist by simp
qed

text \<open>
  C10. After each item the loop has processed, \<open>error_count\<close> is the length of
  \<open>failed_songs\<close>. An item that succeeded leaves the list as it was; an item that failed
  with message \<open>m\<close> adds one entry at its end, the item's dict with \<open>error\<close> set to \<open>m\<close>:
  the item's fields and the error string.
\<close>

theorem failed_songs_follow_errors:
  "\<forall>n < length (batch_hist e delay (enumerate 0 songs) init_state w).
     error_count (fst (batch_hist e delay (enumerate 0 songs) init_state w ! n)) =
       int (length (failed_songs (fst (batch_hist e delay (enumerate 0 songs) init_state w ! n)))) \<and>
     (\<exists>ok msg w'.
        scrobble_with_retry e (songs ! n) 5
          (snd (((init_state, w) # batch_hist e delay (enumerate 0 songs) init_state w) ! n)) =
          Inr ((ok, msg), w') \<and>
        (ok \<longrightarrow>
           failed_songs (fst (batch_hist e delay (enumerate 0 songs) init_state w ! n)) =
           failed_songs (fst (((init_state, w) #
             batch_hist e delay (enumerate 0 songs) init_state w) ! n))) \<and>
        (\<not> ok \<longrightarrow>
           (\<exists>m. msg = Some m \<and>
              failed_songs (fst (batch_hist e delay (enumerate 0 songs) init_state w ! n)) =
              failed_songs (fst (((init_state, w) #
                batch_hist e delay (enumerate 0 songs) init_state w) ! n)) @
                [AList.update ''error'' (JStr m) (songs ! n)] \<and>
              map_of (AList.update ''error'' (JStr m) (songs ! n)) =
                (map_of (songs ! n))(''error'' \<mapsto> JStr m))))"
proof (intro allI impI)
  fix n
  define hist where "hist = batch_hist e delay (enumerate 0 songs) init_state w"
  assume "n < length (batch_hist e delay (enumerate 0 songs) init_state w)"
  then have n: "n < length hist" by (simp add: hist_def)
  have "length hist \<le> length songs"
    using batch_hist_length[of e delay "enumerate 0 songs" init_state w] by (simp add: hist_def)
  with n have ns: "n < length songs" by simp
  then have item: "enumerate 0 songs ! n = (n, songs ! n)"
    by (simp add: nth_enumerate_eq)
  have count: "error_count (fst (hist ! n)) = int (length (failed_songs (fst (hist ! n))))"
    using batch_hist_counts[OF n[unfolded hist_def]] by (simp add: hist_def init_state_def)
  from batch_hist_step[OF n[unfolded hist_def]] item obtain fl where
    "loop_body e delay n (songs ! n) (fst (((init_state, w) # hist) ! n))
       (snd (((init_state, w) # hist) ! n)) = Inr ((fl, fst (hist ! n)), snd (hist ! n))"
    unfolding hist_def by auto
  from loop_body_step[OF this] obtain ok msg w' where
    r: "scrobble_with_retry e (songs ! n) 5 (snd (((init_state, w) # hist) ! n)) =
        Inr ((ok, msg), w')"
    and s: "ok \<longrightarrow> fst (hist ! n) = (fst (((init_state, w) # hist) ! n))
              \<lparr>success_count := success_count (fst (((init_state, w) # hist) ! n)) + 1,
               consecutive_errors := 0\<rparr>"
    and f: "\<not> ok \<longrightarrow> (\<exists>m. msg = Some m) \<and>
            fst (hist ! n) = (fst (((init_state, w) # hist) ! n))
              \<lparr>error_count := error_count (fst (((init_state, w) # hist) ! n)) + 1,
               consecutive_errors := consecutive_errors (fst (((init_state, w) # hist) ! n)) + 1,
               failed_songs := failed_songs (fst (((init_state, w) # hist) ! n)) @
                 [with_error (songs ! n) msg]\<rparr>"
    by blast
  have ok_case: "ok \<longrightarrow> failed_songs (fst (hist ! n)) =
           failed_songs (fst (((init_state, w) # hist) ! n))"
    using s by auto
  have fail_case: "\<not> ok \<longrightarrow>
           (\<exists>m. msg = Some m \<and>
              failed_songs (fst (hist ! n)) =
              failed_songs (fst (((init_state, w) # hist) ! n)) @
                [AList.update ''error'' (JStr m) (songs ! n)] \<and>
              map_of (AList.update ''error'' (JStr m) (songs ! n)) =
                (map_of (songs ! n))(''error'' \<mapsto> JStr m))"
  proof
    assume "\<not> ok"
    with f obtain m where m: "msg = Some m" and
      st: "fst (hist ! n) = (fst (((init_state, w) # hist) ! n))
              \<lparr>error_count := error_count (fst (((init_state, w) # hist) ! n)) + 1,
               consecutive_errors := consecutive_errors (fst (((init_state, w) # hist) ! n)) + 1,
               failed_songs := failed_songs (fst (((init_state, w) # hist) ! n)) @
                 [with_error (songs ! n) msg]\<rparr>"
      by blast
    have "failed_songs (fst (hist ! n)) =
          failed_songs (fst (((init_state, w) # hist) ! n)) @ [with_error (songs ! n) msg]"
      by (subst st) simp
    with m show "\<exists>m. msg = Some m \<and>
              failed_songs (fst (hist ! n)) =
              failed_songs (fst (((init_state, w) # hist) ! n)) @
                [AList.update ''error'' (JStr m) (songs ! n)] \<and>
              map_of (AList.update ''error'' (JStr m) (songs ! n)) =
                (map_of (songs ! n))(''error'' \<mapsto> JStr m)"
      by (simp add: with_error_def update_conv')
  qed
  from count r ok_case fail_case
  show "error_count (fst (batch_hist e delay (enumerate 0 songs) init_state w ! n)) =
       int (length (failed_songs (fst (batch_hist e delay (enumerate 0 songs) init_state w ! n)))) \<and>
     (\<exists>ok msg w'.
        scrobble_with_retry e (songs ! n) 5
          (snd (((init_state, w) # batch_hist e delay (enumerate 0 songs) init_state w) ! n)) =
          Inr ((ok, msg), w') \<and>
        (ok \<longrightarrow>
           failed_songs (fst (batch_hist e delay (enumerate 0 songs) init_state w ! n)) =
           failed_songs (fst (((init_state, w) #
             batch_hist e delay (enumerate 0 songs) init_state w) ! n))) \<and>
        (\<not> ok \<longrightarrow>
           (\<exists>m. msg = Some m \<and>
              failed_songs (fst (batch_hist e delay (enumerate 0 songs) init_state w ! n)) =
              failed_songs (fst (((init_state, w) #
                batch_hist e delay (enumerate 0 songs) init_state w) ! n)) @
                [AList.update ''error'' (JStr m) (songs ! n)] \<and>
              map_of (AList.update ''error'' (JStr m) (songs ! n)) =
                (map_of (songs ! n))(''error'' \<mapsto> JStr m))))"
    unfolding hist_def by blast
qed

theorem failed_songs_follow_errors_witness:
  "error_count (fst (batch_hist (env_of (scripted [rejected])) (2 / 5)
     (enumerate 0 [song0, song0]) init_state world0 ! 0)) = 1 \<and>
   failed_songs (fst (batch_hist (env_of (scripted [rejected])) (2 / 5)
     (enumerate 0 [song0, song0]) init_state world0 ! 0)) =
     [song0 @ [(''error'', JStr ''API error: Invalid parameters'')]] \<and>
   failed_songs (fst (batch_hist (env_of (scripted [rejected])) (2 / 5)
     (enumerate 0 [song0, song0]) init_state world0 ! 1)) =
     [song0 @ [(''error'', JStr ''API error: Invalid parameters'')]]"
proof -
  have n: "0 < length (batch_hist (env_of (scripted [rejected])) (2 / 5)
     (enumerate 0 [song0, song0]) init_state world0)"
    unfolding example_hist by simp
  from failed_songs_follow_errors[of "env_of (scripted [rejected])" "2 / 5"
      "[song0, song0]" world0, rule_format, OF n]
  show ?thesis unfolding example_hist by (simp add: init_state_def)
qed

section \<open>The failed-songs artifact\<close>

lemma append_json_absent:
  "json_files w p = None \<Longrightarrow>
   append_json p evs w = Inr (w\<lparr>json_files := (json_files w)(p \<mapsto> Holds (JArr evs))\<rparr>)"
  by (simp add: append_json_def)

lemma append_json_array:
  "json_files w p = Some (Holds (JArr old)) \<Longrightarrow>
   append_json p evs w = Inr (w\<lparr>json_files := (json_files w)(p \<mapsto> Holds (JArr (old @ evs)))\<rparr>)"
  by (simp add: append_json_def)

lemma append_json_error:
  "append_json p evs w = Inl (x, w1) \<Longrightarrow> w1 = w"
  by (auto simp: append_json_def split: option.splits json_file.splits json.splits)

text \<open>
  C6. \<open>append_json\<close> on a path with no file creates one that holds exactly the given
  list, in order; on a file that holds an array it rewrites the file with the old
  entries first, unchanged and in order, and the new ones after them. So
  \<open>record_failures\<close> with a non-empty list creates the failed-songs artifact when there is
  none, two calls with non-empty lists leave the first list followed by the second, and
  a call leaves every existing entry in place. When \<open>append_json\<close> raises (the file is
  no JSON, or no array), nothing was written.
\<close>

theorem record_failures_appends:
  "(json_files w p = None \<longrightarrow>
      append_json p evs w = Inr (w\<lparr>json_files := (json_files w)(p \<mapsto> Holds (JArr evs))\<rparr>)) \<and>
   (json_files w p = Some (Holds (JArr old)) \<longrightarrow>
      append_json p evs w =
        Inr (w\<lparr>json_files := (json_files w)(p \<mapsto> Holds (JArr (old @ evs)))\<rparr>)) \<and>
   (failed \<noteq> [] \<and> json_files w ''../logs/failed_songs.json'' = None \<longrightarrow>
      record_failures failed w =
        Inr (w\<lparr>json_files := (json_files w)(''../logs/failed_songs.json'' \<mapsto>
                 Holds (JArr (map JObj failed)))\<rparr>)) \<and>
   (failed \<noteq> [] \<and> later \<noteq> [] \<and> json_files w ''../logs/failed_songs.json'' = None \<longrightarrow>
      (\<exists>w1 w2. record_failures failed w = Inr w1 \<and> record_failures later w1 = Inr w2 \<and>
         json_files w2 ''../logs/failed_songs.json'' =
           Some (Holds (JArr (map JObj failed @ map JObj later))))) \<and>
   (json_files w ''../logs/failed_songs.json'' = Some (Holds (JArr old)) \<longrightarrow>
      (\<exists>w1. record_failures failed w = Inr w1 \<and>
         json_files w1 ''../logs/failed_songs.json'' =
           Some (Holds (JArr (old @ map JObj failed))))) \<and>
   (\<forall>x w1. record_failures failed w = Inl (x, w1) \<longrightarrow> w1 = w)"
proof (intro conjI impI allI)
  assume "json_files w p = None"
  then show "append_json p evs w =
      Inr (w\<lparr>json_files := (json_files w)(p \<mapsto> Holds (JArr evs))\<rparr>)"
    by (rule append_json_absent)
next
  assume "json_files w p = Some (Holds (JArr old))"
  then show "append_json p evs w =
      Inr (w\<lparr>json_files := (json_files w)(p \<mapsto> Holds (JArr (old @ evs)))\<rparr>)"
    by (rule append_json_array)
next
  assume "failed \<noteq> [] \<and> json_files w ''../logs/failed_songs.json'' = None"
  then show "record_failures failed w =
        Inr (w\<lparr>json_files := (json_files w)(''../logs/failed_songs.json'' \<mapsto>
                 Holds (JArr (map JObj failed)))\<rparr>)"
    by (simp add: record_failures_def append_json_absent)
next
  assume h: "failed \<noteq> [] \<and> later \<noteq> [] \<and> json_files w ''../logs/failed_songs.json'' = None"
  let ?w1 = "w\<lparr>json_files := (json_files w)(''../logs/failed_songs.json'' \<mapsto>
                 Holds (JArr (map JObj failed)))\<rparr>"
  let ?w2 = "?w1\<lparr>json_files := (json_files ?w1)(''../logs/failed_songs.json'' \<mapsto>
                 Holds (JArr (map JObj failed @ map JObj later)))\<rparr>"
  have a: "record_failures failed w = Inr ?w1"
    using h by (simp add: record_failures_def append_json_absent)
  have "json_files ?w1 ''../logs/failed_songs.json'' = Some (Holds (JArr (map JObj failed)))"
    by simp
  from append_json_array[OF this, of "map JObj later"]
  have b: "record_failures later ?w1 = Inr ?w2"
    using h by (simp add: record_failures_def)
  have "json_files ?w2 ''../logs/failed_songs.json'' =
        Some (Holds (JArr (map JObj failed @ map JObj later)))"
    by simp
  with a b show "\<exists>w1 w2. record_failures failed w = Inr w1 \<and>
         record_failures later w1 = Inr w2 \<and>
         json_files w2 ''../logs/failed_songs.json'' =
           Some (Holds (JArr (map JObj failed @ map JObj later)))"
    by blast
next
  assume h: "json_files w ''../logs/failed_songs.json'' = Some (Holds (JArr old))"
  show "\<exists>w1. record_failures failed w = Inr w1 \<and>
         json_files w1 ''../logs/failed_songs.json'' =
           Some (Holds (JArr (old @ map JObj failed)))"
  proof (cases "failed = []")
    case True
    with h show ?thesis by (simp add: record_failures_def)
  next
    case False
    with append_json_array[OF h, of "map JObj failed"] show ?thesis
      by (simp add: record_failures_def)
  qed
next
  fix x w1
  assume "record_failures failed w = Inl (x, w1)"
  then show "w1 = w"
    by (auto simp: record_failures_def dest: append_json_error split: if_splits)
qed

theorem record_failures_appends_witness:
  "record_failures [song0] world0 =
     Inr (world0\<lparr>json_files := (json_files world0)(''../logs/failed_songs.json'' \<mapsto>
                 Holds (JArr [JObj song0]))\<rparr>) \<and>
   (\<exists>w1 w2. record_failures [song0] world0 = Inr w1 \<and>
      record_failures [[(''artistName'', JStr ''Can'')]] w1 = Inr w2 \<and>
      json_files w2 ''../logs/failed_songs.json'' =
        Some (Holds (JArr [JObj song0, JObj [(''artistName'', JStr ''Can'')]]))) \<and>
   (\<exists>w1. record_failures [song0]
            (world0\<lparr>json_files := [''../logs/failed_songs.json'' \<mapsto> Holds (JArr [JNull])]\<rparr>) =
            Inr w1 \<and>
         json_files w1 ''../logs/failed_songs.json'' = Some (Holds (JArr [JNull, JObj song0]))) \<and>
   record_failures [song0]
     (world0\<lparr>json_files := [''../logs/failed_songs.json'' \<mapsto> Unparsable]\<rparr>) =
     Inl (JSONDecodeError,
          world0\<lparr>json_files := [''../logs/failed_songs.json'' \<mapsto> Unparsable]\<rparr>)"
proof -
  have none: "json_files world0 ''../logs/failed_songs.json'' = None"
    by (simp add: world0_def)
  have some: "json_files (world0\<lparr>json_files := [''../logs/failed_songs.json'' \<mapsto>
                 Holds (JArr [JNull])]\<rparr>) ''../logs/failed_songs.json'' =
              Some (Holds (JArr [JNull]))"
    by simp
  from record_failures_appends[of world0 "[]" "[]" "[]" "[song0]"
      "[[(''artistName'', JStr ''Can'')]]"] none
  have a: "record_failures [song0] world0 =
     Inr (world0\<lparr>json_files := (json_files world0)(''../logs/failed_songs.json'' \<mapsto>
                 Holds (JArr [JObj song0]))\<rparr>) \<and>
   (\<exists>w1 w2. record_failures [song0] world0 = Inr w1 \<and>
      record_failures [[(''artistName'', JStr ''Can'')]] w1 = Inr w2 \<and>
      json_files w2 ''../logs/failed_songs.json'' =
        Some (Holds (JArr [JObj song0, JObj [(''artistName'', JStr ''Can'')]])))"
    by auto
  from record_failures_appends[of "world0\<lparr>json_files := [''../logs/failed_songs.json'' \<mapsto>
                 Holds (JArr [JNull])]\<rparr>" "[]" "[]" "[JNull]" "[song0]" "[]"] some
  have b: "\<exists>w1. record_failures [song0]
            (world0\<lparr>json_files := [''../logs/failed_songs.json'' \<mapsto> Holds (JArr [JNull])]\<rparr>) =
            Inr w1 \<and>
         json_files w1 ''../logs/failed_songs.json'' = Some (Holds (JArr [JNull, JObj song0]))"
    by auto
  have ev: "record_failures [song0]
     (world0\<lparr>json_files := [''../logs/failed_songs.json'' \<mapsto> Unparsable]\<rparr>) =
     Inl (JSONDecodeError,
          world0\<lparr>json_files := [''../logs/failed_songs.json'' \<mapsto> Unparsable]\<rparr>)"
    by (simp add: record_failures_def append_json_def)
  from record_failures_appends[of "world0\<lparr>json_files := [''../logs/failed_songs.json'' \<mapsto>
                 Unparsable]\<rparr>" "[]" "[]" "[]" "[song0]" "[]"]
  have "\<forall>x w1. record_failures [song0]
     (world0\<lparr>json_files := [''../logs/failed_songs.json'' \<mapsto> Unparsable]\<rparr>) = Inl (x, w1) \<longrightarrow>
     w1 = world0\<lparr>json_files := [''../logs/failed_songs.json'' \<mapsto> Unparsable]\<rparr>"
    by (elim conjE)
  with ev have c: "record_failures [song0]
     (world0\<lparr>json_files := [''../logs/failed_songs.json'' \<mapsto> Unparsable]\<rparr>) =
     Inl (JSONDecodeError,
          world0\<lparr>json_files := [''../logs/failed_songs.json'' \<mapsto> Unparsable]\<rparr>)"
    by simp
  from a b c show ?thesis by blast
qed


section \<open>The consecutive-error counter\<close>

lemma throttle_break:
  "consecutive_errors st > 10 \<Longrightarrow> throttle e delay i st w = Inr ((Break, st), w)"
  by (simp add: throttle_def)

lemma throttle_continue:
  assumes "\<not> consecutive_errors st > 10" "0 \<le> delay + uniform e (draws w)"
  shows "throttle e delay i st w =
     Inr ((Continue, st),
          w\<lparr>draws := draws w + 1,
             trace := trace w @ Sleep (delay + uniform e (draws w)) #
                        (if (i + 1) mod 500 = 0 then [Sleep 120] else [])\<rparr>)"
  using assms by (simp add: throttle_def py_sleep_def)

lemma on_failure_ok:
  assumes "call_args song = Inr c"
  shows "on_failure song msg st w =
     Inr (st\<lparr>error_count := error_count st + 1,
             consecutive_errors := consecutive_errors st + 1,
             failed_songs := failed_songs st @ [with_error song msg]\<rparr>,
          if consecutive_errors st + 1 > 3
          then w\<lparr>trace := trace w @
                  [Sleep (real_of_int (min 60 ((consecutive_errors st + 1) * 10)))]\<rparr>
          else w)"
  using call_args_keys[OF assms]
  by (auto simp: on_failure_def py_sleep_def Let_def min_def)

text \<open>
  C7. Whatever the consecutive-error counter was, an item that succeeds sets it to 0 and
  the loop goes on. If the next item then fails, the counter is 1, the loop goes on
  again, and after the events of that item's retries the only sleep is the base delay
  with jitter (and the cooldown when the item is a 500th): no penalty sleep, no halt.
  The base delay is taken non-negative and the jitter too, as
  \<^verbatim>\<open>random.uniform(0, 0.2)\<close> returns it; the failing item has its two required keys.
\<close>

theorem success_resets_consecutive_errors:
  assumes "scrobble_with_retry e s1 5 w = Inr ((True, m1), wa)"
    and "0 \<le> delay"
    and "\<forall>d. 0 \<le> uniform e d"
  shows "\<exists>st1 w1.
           loop_body e delay i s1 st w = Inr ((Continue, st1), w1) \<and>
           consecutive_errors st1 = 0 \<and>
           (\<forall>m2 wb c.
              scrobble_with_retry e s2 5 w1 = Inr ((False, m2), wb) \<and> call_args s2 = Inr c \<longrightarrow>
              (\<exists>st2 w2.
                 loop_body e delay (i + 1) s2 st1 w1 = Inr ((Continue, st2), w2) \<and>
                 consecutive_errors st2 = 1 \<and>
                 trace w2 = trace wb @ Sleep (delay + uniform e (draws wb)) #
                              (if (i + 2) mod 500 = 0 then [Sleep 120] else [])))"
proof -
  let ?st1 = "st\<lparr>success_count := success_count st + 1, consecutive_errors := 0\<rparr>"
  let ?w1 = "wa\<lparr>draws := draws wa + 1,
                trace := trace wa @ Sleep (delay + uniform e (draws wa)) #
                           (if (i + 1) mod 500 = 0 then [Sleep 120] else [])\<rparr>"
  have sleep_ok: "\<And>d. 0 \<le> delay + uniform e d"
    using assms(2,3) by (simp add: add_nonneg_nonneg)
  have first: "loop_body e delay i s1 st w = Inr ((Continue, ?st1), ?w1)"
    using assms(1) throttle_continue[of ?st1 delay e wa i] sleep_ok
    by (simp add: loop_body_def)
  have second: "\<exists>st2 w2.
                 loop_body e delay (i + 1) s2 ?st1 ?w1 = Inr ((Continue, st2), w2) \<and>
                 consecutive_errors st2 = 1 \<and>
                 trace w2 = trace wb @ Sleep (delay + uniform e (draws wb)) #
                              (if (i + 2) mod 500 = 0 then [Sleep 120] else [])"
    if r: "scrobble_with_retry e s2 5 ?w1 = Inr ((False, m2), wb)" and a: "call_args s2 = Inr c"
    for m2 wb c
  proof -
    let ?st2 = "?st1\<lparr>error_count := error_count ?st1 + 1,
             consecutive_errors := consecutive_errors ?st1 + 1,
             failed_songs := failed_songs ?st1 @ [with_error s2 m2]\<rparr>"
    have f: "on_failure s2 m2 ?st1 wb = Inr (?st2, wb)"
      using on_failure_ok[OF a, of m2 ?st1 wb] by simp
    have t: "throttle e delay (i + 1) ?st2 wb =
       Inr ((Continue, ?st2),
          wb\<lparr>draws := draws wb + 1,
             trace := trace wb @ Sleep (delay + uniform e (draws wb)) #
                        (if (i + 1 + 1) mod 500 = 0 then [Sleep 120] else [])\<rparr>)"
      by (rule throttle_continue) (simp_all add: sleep_ok)
    have "loop_body e delay (i + 1) s2 ?st1 ?w1 =
       Inr ((Continue, ?st2),
          wb\<lparr>draws := draws wb + 1,
             trace := trace wb @ Sleep (delay + uniform e (draws wb)) #
                        (if (i + 1 + 1) mod 500 = 0 then [Sleep 120] else [])\<rparr>)"
      unfolding loop_body_def r using f t by simp
    then show ?thesis
      by (intro exI conjI) (assumption, simp, simp add: add.assoc)
  qed
  show ?thesis
  proof (rule exI[of _ ?st1], rule exI[of _ ?w1], intro conjI allI impI)
    show "loop_body e delay i s1 st w = Inr ((Continue, ?st1), ?w1)" by (rule first)
    show "consecutive_errors ?st1 = 0" by simp
  next
    fix m2 wb c
    assume "scrobble_with_retry e s2 5 ?w1 = Inr ((False, m2), wb) \<and> call_args s2 = Inr c"
    then show "\<exists>st2 w2.
                 loop_body e delay (i + 1) s2 ?st1 ?w1 = Inr ((Continue, st2), w2) \<and>
                 consecutive_errors st2 = 1 \<and>
                 trace w2 = trace wb @ Sleep (delay + uniform e (draws wb)) #
                              (if (i + 2) mod 500 = 0 then [Sleep 120] else [])"
      using second by blast
  qed
qed


theorem success_resets_consecutive_errors_witness:
  "\<exists>st1 w1.
     loop_body (env_of (scripted [Ok, rejected])) (2 / 5) 10 song0
       (init_state\<lparr>error_count := 10, consecutive_errors := 10\<rparr>) world0 =
       Inr ((Continue, st1), w1) \<and>
     consecutive_errors st1 = 0 \<and>
     (\<exists>st2 w2.
        loop_body (env_of (scripted [Ok, rejected])) (2 / 5) (10 + 1) song0 st1 w1 =
          Inr ((Continue, st2), w2) \<and>
        consecutive_errors st2 = 1 \<and>
        trace w2 = [Call call0, Sleep (1 / 2), Call call0, Sleep (1 / 2)])"
proof -
  let ?e = "env_of (scripted [Ok, rejected])"
  let ?wa = "world0\<lparr>ncalls := 1, trace := [Call call0]\<rparr>"
  let ?w1 = "?wa\<lparr>draws := draws ?wa + 1,
                trace := trace ?wa @ Sleep (2 / 5 + uniform ?e (draws ?wa)) #
                           (if (10 + 1) mod 500 = (0::nat) then [Sleep 120] else [])\<rparr>"
  let ?wb = "world0\<lparr>ncalls := 2, draws := 1,
                  trace := [Call call0, Sleep (1 / 2), Call call0]\<rparr>"
  have jit: "\<forall>d. 0 \<le> uniform ?e d"
    by (simp add: env_of_def)
  have one: "scrobble_with_retry ?e song0 5 world0 = Inr ((True, None), ?wa)"
    by (simp add: scrobble_with_retry_def upt_rec call_args_song0 env_of_def scripted_def
        world0_def)
  have w1: "?w1 = world0\<lparr>ncalls := 1, draws := 1, trace := [Call call0, Sleep (1 / 2)]\<rparr>"
    by (simp add: env_of_def world0_def)
  have two: "scrobble_with_retry ?e song0 5 ?w1 =
             Inr ((False, Some ''API error: Invalid parameters''), ?wb)"
    unfolding w1 using is_permanent_rejected
    by (simp add: scrobble_with_retry_def upt_rec call_args_song0 env_of_def scripted_def
        rejected_def world0_def is_permanent_def)
  from success_resets_consecutive_errors[OF one _ jit, of "2 / 5" 10
      "init_state\<lparr>error_count := 10, consecutive_errors := 10\<rparr>" song0]
  obtain st1 w1' where
    b1: "loop_body ?e (2 / 5) 10 song0
           (init_state\<lparr>error_count := 10, consecutive_errors := 10\<rparr>) world0 =
         Inr ((Continue, st1), w1')"
    and z: "consecutive_errors st1 = 0"
    and nxt: "\<forall>m2 wb c.
              scrobble_with_retry ?e song0 5 w1' = Inr ((False, m2), wb) \<and>
              call_args song0 = Inr c \<longrightarrow>
              (\<exists>st2 w2.
                 loop_body ?e (2 / 5) (10 + 1) song0 st1 w1' = Inr ((Continue, st2), w2) \<and>
                 consecutive_errors st2 = 1 \<and>
                 trace w2 = trace wb @ Sleep (2 / 5 + uniform ?e (draws wb)) #
                              (if (10 + 2) mod 500 = (0::nat) then [Sleep 120] else []))"
    by auto
  have "loop_body ?e (2 / 5) 10 song0
           (init_state\<lparr>error_count := 10, consecutive_errors := 10\<rparr>) world0 =
         Inr ((Continue, init_state\<lparr>error_count := 10, consecutive_errors := 10\<rparr>
                 \<lparr>success_count := success_count
                    (init_state\<lparr>error_count := 10, consecutive_errors := 10\<rparr>) + 1,
                  consecutive_errors := 0\<rparr>), ?w1)"
    unfolding loop_body_def one
    by (simp add: throttle_def py_sleep_def env_of_def)
  with b1 have "w1' = ?w1" by simp
  with two nxt call_args_song0 obtain st2 w2 where
    "loop_body ?e (2 / 5) (10 + 1) song0 st1 w1' = Inr ((Continue, st2), w2)"
    "consecutive_errors st2 = 1"
    "trace w2 = trace ?wb @ Sleep (2 / 5 + uniform ?e (draws ?wb)) #
                              (if (10 + 2) mod 500 = (0::nat) then [Sleep 120] else [])"
    by blast
  then have "loop_body ?e (2 / 5) (10 + 1) song0 st1 w1' = Inr ((Continue, st2), w2) \<and>
    consecutive_errors st2 = 1 \<and>
    trace w2 = [Call call0, Sleep (1 / 2), Call call0, Sleep (1 / 2)]"
    by (simp add: env_of_def world0_def)
  with b1 z show ?thesis by blast
qed

lemma scrobble_with_retry_permanent:
  assumes "call_args song = Inr c" "is_permanent (network e (ncalls w) c)"
  shows "scrobble_with_retry e song 5 w =
     Inr ((False, Some (''API error: '' @ error_text (network e (ncalls w) c))),
          w\<lparr>ncalls := ncalls w + 1, trace := trace w @ [Call c]\<rparr>)"
proof -
  have "scrobble_with_retry e song 5 w =
        retry_loop e song 5 (0 # [Suc 0..<nat 5])
          (w\<lparr>ncalls := ncalls w + 0, trace := trace w @ backoff_events c 0 0\<rparr>)"
    by (rule scrobble_with_retry_prefix[OF assms(1)]) simp_all
  then have "scrobble_with_retry e song 5 w = retry_loop e song 5 (0 # [Suc 0..<nat 5]) w"
    by (simp add: backoff_events_0)
  with retry_loop_permanent[OF assms] show ?thesis by simp
qed

lemma loop_body_permanent_break:
  assumes "call_args song = Inr c" "is_permanent (network e (ncalls w) c)"
    and "10 \<le> consecutive_errors st"
  shows "loop_body e delay i song st w =
     Inr ((Break,
           st\<lparr>error_count := error_count st + 1,
              consecutive_errors := consecutive_errors st + 1,
              failed_songs := failed_songs st @
                [with_error song
                   (Some (''API error: '' @ error_text (network e (ncalls w) c)))]\<rparr>),
          w\<lparr>ncalls := ncalls w + 1, trace := trace w @ [Call c, Sleep 60]\<rparr>)"
  unfolding loop_body_def scrobble_with_retry_permanent[OF assms(1,2)]
  using assms(3) by (simp add: on_failure_ok[OF assms(1)] throttle_break)

lemma loop_body_permanent_continue:
  assumes "call_args song = Inr c" "is_permanent (network e (ncalls w) c)"
    and "consecutive_errors st < 10" and "0 \<le> delay" and "\<forall>d. 0 \<le> uniform e d"
  shows "\<exists>w1. loop_body e delay i song st w =
     Inr ((Continue,
           st\<lparr>error_count := error_count st + 1,
              consecutive_errors := consecutive_errors st + 1,
              failed_songs := failed_songs st @
                [with_error song
                   (Some (''API error: '' @ error_text (network e (ncalls w) c)))]\<rparr>),
          w1) \<and>
     ncalls w1 = ncalls w + 1 \<and> draws w1 = draws w + 1 \<and>
     calls_of (trace w1) = calls_of (trace w) @ [c]"
proof -
  have sleep_ok: "\<And>d. 0 \<le> delay + uniform e d"
    using assms(4,5) by (simp add: add_nonneg_nonneg)
  show ?thesis
    unfolding loop_body_def scrobble_with_retry_permanent[OF assms(1,2)]
    using assms(3)
    by (simp add: on_failure_ok[OF assms(1)] throttle_continue sleep_ok calls_of_append)
qed


lemma failing_run:
  assumes "0 \<le> delay" and "\<forall>d. 0 \<le> uniform e d"
  shows "consecutive_errors st = 11 - int k \<Longrightarrow> 0 < k \<Longrightarrow> k \<le> length songs \<Longrightarrow>
     \<forall>n<k. \<exists>c. call_args (songs ! n) = Inr c \<and> is_permanent (network e (ncalls w + n) c) \<Longrightarrow>
     \<exists>st' w'. batch_loop e delay (enumerate i songs) st w = Inr (st', w') \<and>
        error_count st' = error_count st + int k \<and>
        success_count st' = success_count st \<and>
        consecutive_errors st' = 11 \<and>
        length (failed_songs st') = length (failed_songs st) + k \<and>
        length (batch_hist e delay (enumerate i songs) st w) = k \<and>
        ncalls w' = ncalls w + k \<and>
        draws w' = draws w + (k - 1) \<and>
        map Inr (calls_of (trace w')) =
          map Inr (calls_of (trace w)) @ map call_args (take k songs) \<and>
        (\<exists>evs c. call_args (songs ! (k - 1)) = Inr c \<and> trace w' = evs @ [Call c, Sleep 60])"
proof (induction k arbitrary: songs i st w)
  case 0
  then show ?case by simp
next
  case (Suc k)
  from Suc.prems(3) obtain s rest where songs: "songs = s # rest"
    by (cases songs) auto
  from Suc.prems(4)[rule_format, of 0] songs obtain c where
    c: "call_args s = Inr c" and p: "is_permanent (network e (ncalls w) c)"
    by auto
  let ?st1 = "st\<lparr>error_count := error_count st + 1,
              consecutive_errors := consecutive_errors st + 1,
              failed_songs := failed_songs st @
                [with_error s (Some (''API error: '' @ error_text (network e (ncalls w) c)))]\<rparr>"
  show ?case
  proof (cases "k = 0")
    case True
    with Suc.prems(1) have "10 \<le> consecutive_errors st" by simp
    from loop_body_permanent_break[OF c p this, of delay i]
    show ?thesis
      using True songs c Suc.prems(1) by (simp add: calls_of_append)
  next
    case False
    with Suc.prems(1) have lt: "consecutive_errors st < 10" by simp
    from loop_body_permanent_continue[OF c p lt assms, of i] obtain w1 where
      body: "loop_body e delay i s st w = Inr ((Continue, ?st1), w1)"
      and n1: "ncalls w1 = ncalls w + 1" and d1: "draws w1 = draws w + 1"
      and c1: "calls_of (trace w1) = calls_of (trace w) @ [c]"
      by blast
    have ce: "consecutive_errors ?st1 = 11 - int k"
      using Suc.prems(1) by simp
    have pos: "0 < k" using False by simp
    have len: "k \<le> length rest" using Suc.prems(3) songs by simp
    have perm: "\<forall>n<k. \<exists>c. call_args (rest ! n) = Inr c \<and>
                 is_permanent (network e (ncalls w1 + n) c)"
    proof (intro allI impI)
      fix n assume "n < k"
      then have "Suc n < Suc k" by simp
      from Suc.prems(4)[rule_format, OF this] songs n1
      show "\<exists>c. call_args (rest ! n) = Inr c \<and> is_permanent (network e (ncalls w1 + n) c)"
        by simp
    qed
    from Suc.IH[OF ce pos len perm, of "Suc i"] obtain st' w' where
      run: "batch_loop e delay (enumerate (Suc i) rest) ?st1 w1 = Inr (st', w')"
      and e': "error_count st' = error_count ?st1 + int k"
      and s': "success_count st' = success_count ?st1"
      and c': "consecutive_errors st' = 11"
      and f': "length (failed_songs st') = length (failed_songs ?st1) + k"
      and h': "length (batch_hist e delay (enumerate (Suc i) rest) ?st1 w1) = k"
      and n': "ncalls w' = ncalls w1 + k"
      and d': "draws w' = draws w1 + (k - 1)"
      and t': "map Inr (calls_of (trace w')) =
                 map Inr (calls_of (trace w1)) @ map call_args (take k rest)"
      and l': "\<exists>evs c. call_args (rest ! (k - 1)) = Inr c \<and> trace w' = evs @ [Call c, Sleep 60]"
      by blast
    have last_item: "rest ! (k - 1) = songs ! (Suc k - 1)"
      using pos songs by (cases k) simp_all
    have "batch_loop e delay (enumerate i songs) st w = Inr (st', w')"
      using body run songs by simp
    moreover have "length (batch_hist e delay (enumerate i songs) st w) = Suc k"
      using body h' songs by simp
    moreover have "map Inr (calls_of (trace w')) =
          map Inr (calls_of (trace w)) @ map call_args (take (Suc k) songs)"
      using t' c1 c songs by simp
    moreover have "draws w' = draws w + (Suc k - 1)"
      using d' d1 pos by simp
    ultimately show ?thesis
      using e' s' c' f' n' n1 l' last_item by simp
  qed
qed

text \<open>
  C3. Twenty items, of which the first eleven fail permanently (each has its two
  required keys, and the service answers its one call with a permanent error). The loop
  halts after the eleventh: it returns with \<open>error_count = 11\<close>, eleven recorded
  failures and eleven items processed; the service was called eleven times, for the first
  eleven items and no other; the last events are the eleventh call and the penalty sleep
  of 60 seconds, so no base delay and no cooldown follow it (ten jitter draws were made,
  for the ten items before). The base delay and the jitter are non-negative.
\<close>

theorem eleven_failures_halt_batch:
  assumes "length songs = 20"
    and "\<forall>n<11. \<exists>c. call_args (songs ! n) = Inr c \<and>
                      is_permanent (network e (ncalls w + n) c)"
    and "0 \<le> delay"
    and "\<forall>d. 0 \<le> uniform e d"
  shows "\<exists>st w'. batch_loop e delay (enumerate 0 songs) init_state w = Inr (st, w') \<and>
           error_count st = 11 \<and>
           success_count st = 0 \<and>
           consecutive_errors st = 11 \<and>
           length (failed_songs st) = 11 \<and>
           length (batch_hist e delay (enumerate 0 songs) init_state w) = 11 \<and>
           ncalls w' = ncalls w + 11 \<and>
           draws w' = draws w + 10 \<and>
           map Inr (calls_of (trace w')) =
             map Inr (calls_of (trace w)) @ map call_args (take 11 songs) \<and>
           (\<exists>evs c. call_args (songs ! 10) = Inr c \<and> trace w' = evs @ [Call c, Sleep 60])"
proof -
  have ce: "consecutive_errors init_state = 11 - int 11"
    by (simp add: init_state_def)
  have len: "11 \<le> length songs" using assms(1) by simp
  from failing_run[OF assms(3,4) ce _ len assms(2), of 0]
  show ?thesis by (simp add: init_state_def)
qed

theorem eleven_failures_halt_batch_witness:
  "\<exists>st w'. batch_loop (env_of (scripted (replicate 20 rejected))) (2 / 5)
              (enumerate 0 (replicate 20 song0)) init_state world0 = Inr (st, w') \<and>
           error_count st = 11 \<and>
           success_count st = 0 \<and>
           consecutive_errors st = 11 \<and>
           length (failed_songs st) = 11 \<and>
           length (batch_hist (env_of (scripted (replicate 20 rejected))) (2 / 5)
              (enumerate 0 (replicate 20 song0)) init_state world0) = 11 \<and>
           ncalls w' = 11 \<and>
           draws w' = 10 \<and>
           calls_of (trace w') = replicate 11 call0 \<and>
           (\<exists>evs. trace w' = evs @ [Call call0, Sleep 60])"
proof -
  let ?e = "env_of (scripted (replicate 20 rejected))"
  have perm: "\<forall>n<11. \<exists>c. call_args (replicate 20 song0 ! n) = Inr c \<and>
                      is_permanent (network ?e (ncalls world0 + n) c)"
    using is_permanent_rejected
    by (simp add: call_args_song0 env_of_def scripted_def world0_def)
  have jit: "\<forall>d. 0 \<le> uniform ?e d" by (simp add: env_of_def)
  have tk: "map call_args (take 11 (replicate 20 song0)) = map Inr (replicate 11 call0)"
    by (simp add: call_args_song0)
  have inj: "\<And>xs ys :: scrobble_call list.
               (map Inr xs :: (string + scrobble_call) list) = map Inr ys \<Longrightarrow> xs = ys"
    by (simp add: inj_map_eq_map)
  from eleven_failures_halt_batch[OF _ perm _ jit, of "2 / 5"]
  obtain st w' where
    r: "batch_loop ?e (2 / 5) (enumerate 0 (replicate 20 song0)) init_state world0 = Inr (st, w')"
    "error_count st = 11" "success_count st = 0" "consecutive_errors st = 11"
    "length (failed_songs st) = 11"
    "length (batch_hist ?e (2 / 5) (enumerate 0 (replicate 20 song0)) init_state world0) = 11"
    "ncalls w' = ncalls world0 + 11" "draws w' = draws world0 + 10"
    and calls: "map Inr (calls_of (trace w')) =
             map Inr (calls_of (trace world0)) @ map call_args (take 11 (replicate 20 song0))"
    and lst: "\<exists>evs c. call_args (replicate 20 song0 ! 10) = Inr c \<and>
                trace w' = evs @ [Call c, Sleep 60]"
    by auto
  from calls have "(map Inr (calls_of (trace w')) :: (string + scrobble_call) list) =
                   map Inr (replicate 11 call0)"
    unfolding tk by (simp add: world0_def)
  then have c: "calls_of (trace w') = replicate 11 call0" by (rule inj)
  from lst have l: "\<exists>evs. trace w' = evs @ [Call call0, Sleep 60]"
    by (auto simp: call_args_song0)
  from r c l show ?thesis by (simp add: world0_def)
qed

section \<open>The end of a run\<close>

lemma throttle_total:
  assumes "0 \<le> delay" and "\<forall>d. 0 \<le> uniform e d"
  shows "\<exists>fl w1. throttle e delay i st w = Inr ((fl, st), w1) \<and>
           scrobbled_files w1 = scrobbled_files w \<and> json_files w1 = json_files w"
proof (cases "consecutive_errors st > 10")
  case True
  then show ?thesis by (simp add: throttle_break)
next
  case False
  have "0 \<le> delay + uniform e (draws w)"
    using assms by (simp add: add_nonneg_nonneg)
  from throttle_continue[OF False this, of i] show ?thesis by simp
qed

lemma loop_body_total:
  assumes "call_args song = Inr c" and "0 \<le> delay" and "\<forall>d. 0 \<le> uniform e d"
  shows "\<exists>fl st1 w1. loop_body e delay i song st w = Inr ((fl, st1), w1) \<and>
           scrobbled_files w1 = scrobbled_files w \<and> json_files w1 = json_files w"
proof -
  obtain ok msg w' where r: "scrobble_with_retry e song 5 w = Inr ((ok, msg), w')"
    and files: "scrobbled_files w' = scrobbled_files w" "json_files w' = json_files w"
    using scrobble_with_retry_returns[of e song 5 w] by blast
  show ?thesis
  proof (cases ok)
    case True
    from throttle_total[OF assms(2,3), of i
        "st\<lparr>success_count := success_count st + 1, consecutive_errors := 0\<rparr>" w']
    show ?thesis
      unfolding loop_body_def r using True files by auto
  next
    case False
    let ?st1 = "st\<lparr>error_count := error_count st + 1,
             consecutive_errors := consecutive_errors st + 1,
             failed_songs := failed_songs st @ [with_error song msg]\<rparr>"
    let ?w2 = "if consecutive_errors st + 1 > 3
          then w'\<lparr>trace := trace w' @
                  [Sleep (real_of_int (min 60 ((consecutive_errors st + 1) * 10)))]\<rparr>
          else w'"
    have f: "on_failure song msg st w' = Inr (?st1, ?w2)"
      by (rule on_failure_ok[OF assms(1)])
    have files2: "scrobbled_files ?w2 = scrobbled_files w" "json_files ?w2 = json_files w"
      using files by simp_all
    from throttle_total[OF assms(2,3), of i ?st1 ?w2] obtain fl w1 where
      "throttle e delay i ?st1 ?w2 = Inr ((fl, ?st1), w1)"
      "scrobbled_files w1 = scrobbled_files ?w2" "json_files w1 = json_files ?w2"
      by blast
    with files2 show ?thesis
      unfolding loop_body_def r using False f by auto
  qed
qed

lemma batch_loop_total:
  assumes "0 \<le> delay" and "\<forall>d. 0 \<le> uniform e d"
  shows "\<forall>it \<in> set items. \<exists>c. call_args (snd it) = Inr c \<Longrightarrow>
         \<exists>st' w'. batch_loop e delay items st w = Inr (st', w') \<and>
           scrobbled_files w' = scrobbled_files w \<and> json_files w' = json_files w"
proof (induction items arbitrary: st w)
  case Nil
  then show ?case by simp
next
  case (Cons it rest)
  obtain i song where it: "it = (i, song)" by (cases it)
  from Cons.prems it obtain c where c: "call_args song = Inr c" by auto
  from loop_body_total[OF c assms, of i st w] obtain fl st1 w1 where
    body: "loop_body e delay i song st w = Inr ((fl, st1), w1)"
    and files: "scrobbled_files w1 = scrobbled_files w" "json_files w1 = json_files w"
    by blast
  show ?case
  proof (cases fl)
    case Break
    with body files it show ?thesis by simp
  next
    case Continue
    from Cons.prems have "\<forall>it \<in> set rest. \<exists>c. call_args (snd it) = Inr c" by simp
    from Cons.IH[OF this, of st1 w1] body files it Continue show ?thesis by simp
  qed
qed

lemma record_failures_files:
  "record_failures failed w = Inl (x, w1) \<Longrightarrow> w1 = w"
  "record_failures failed w = Inr w2 \<Longrightarrow> scrobbled_files w2 = scrobbled_files w"
  "record_failures [] w = Inr w"
  by (auto simp: record_failures_def append_json_def
      split: if_splits option.splits json_file.splits json.splits)

text \<open>
  C8, as the code has it. Three runs that do not do what the claim says of every run.
  An item without \<^verbatim>\<open>trackName\<close> is turned into a failure by the retry operation, and
  line 120 then reads the missing key: \<open>main\<close> raises KeyError and the processed-file log
  is still empty. A base delay of \<open>-1\<close> makes the sleep of line 133 raise ValueError after
  the first item, before any flush. With a failed-songs artifact that is no JSON, the
  name is logged but \<^verbatim>\<open>json.load\<close> raises and the failed song is not written.
\<close>

theorem run_can_miss_log_flush:
  "main (env_of (scripted [])) ''batch_01.json'' [[(''artistName'', JStr ''Low'')], song0] 0
     (2 / 5) world0 = Inl (KeyError ''trackName'', world0) \<and>
   scrobbled_files world0 = [] \<and>
   main (env_of (scripted [])) ''batch_01.json'' [song0] 0 (- 1) world0 =
     Inl (ValueError, world0\<lparr>ncalls := 1, draws := 1, trace := [Call call0]\<rparr>) \<and>
   main (env_of (scripted [rejected])) ''batch_01.json'' [song0] 0 (2 / 5)
     (world0\<lparr>json_files := (json_files world0)(''../logs/failed_songs.json'' \<mapsto> Unparsable)\<rparr>) =
     Inl (JSONDecodeError,
          world0\<lparr>ncalls := 1, draws := 1, trace := [Call call0, Sleep (1 / 2)],
                 scrobbled_files := ''batch_01.json'' @ [CHR 0x0A],
                 json_files := (json_files world0)(''../logs/failed_songs.json'' \<mapsto> Unparsable)\<rparr>)"
proof -
  let ?F = "''../logs/failed_songs.json''"
  have k: "call_args [(''artistName'', JStr ''Low'')] = Inl ''trackName''"
    by (simp add: call_args_def)
  have r1: "scrobble_with_retry (env_of (scripted [])) [(''artistName'', JStr ''Low'')] 5 world0 =
            Inr ((False, Some (''Unexpected error: '' @ key_error_str ''trackName'')), world0)"
    by (simp add: scrobble_with_retry_def upt_rec k)
  have b1: "loop_body (env_of (scripted [])) (2 / 5) 0 [(''artistName'', JStr ''Low'')]
              init_state world0 = Inl (KeyError ''trackName'', world0)"
    unfolding loop_body_def r1 by (simp add: on_failure_def)
  have a: "main (env_of (scripted [])) ''batch_01.json''
             [[(''artistName'', JStr ''Low'')], song0] 0 (2 / 5) world0 =
           Inl (KeyError ''trackName'', world0)"
    by (simp add: main_def slice_from_def b1)
  have r2: "scrobble_with_retry (env_of (scripted [])) song0 5 world0 =
            Inr ((True, None), world0\<lparr>ncalls := 1, trace := [Call call0]\<rparr>)"
    by (simp add: scrobble_with_retry_def upt_rec call_args_song0 env_of_def scripted_def
        world0_def)
  have b2: "loop_body (env_of (scripted [])) (- 1) 0 song0 init_state world0 =
            Inl (ValueError, world0\<lparr>ncalls := 1, draws := 1, trace := [Call call0]\<rparr>)"
    unfolding loop_body_def r2
    by (simp add: throttle_def py_sleep_def init_state_def world0_def env_of_def)
  have b: "main (env_of (scripted [])) ''batch_01.json'' [song0] 0 (- 1) world0 =
     Inl (ValueError, world0\<lparr>ncalls := 1, draws := 1, trace := [Call call0]\<rparr>)"
    by (simp add: main_def slice_from_def b2)
  let ?wu = "world0\<lparr>json_files := (json_files world0)(?F \<mapsto> Unparsable)\<rparr>"
  let ?st = "init_state\<lparr>error_count := 1, consecutive_errors := 1,
                 failed_songs := [song0 @ [(''error'', JStr ''API error: Invalid parameters'')]]\<rparr>"
  let ?w1 = "?wu\<lparr>ncalls := 1, draws := 1, trace := [Call call0, Sleep (1 / 2)]\<rparr>"
  have r3: "scrobble_with_retry (env_of (scripted [rejected])) song0 5 ?wu =
     Inr ((False, Some ''API error: Invalid parameters''),
          ?wu\<lparr>ncalls := 1, trace := [Call call0]\<rparr>)"
    using is_permanent_rejected
    by (simp add: scrobble_with_retry_def upt_rec call_args_song0 env_of_def scripted_def
        rejected_def world0_def is_permanent_def)
  have we: "with_error song0 (Some ''API error: Invalid parameters'') =
            song0 @ [(''error'', JStr ''API error: Invalid parameters'')]"
    by (simp add: with_error_def song0_def)
  have b3: "loop_body (env_of (scripted [rejected])) (2 / 5) 0 song0 init_state ?wu =
            Inr ((Continue, ?st), ?w1)"
    unfolding loop_body_def r3
    by (simp add: on_failure_def map_of_song0 we throttle_def py_sleep_def init_state_def
        world0_def env_of_def)
  have l3: "batch_loop (env_of (scripted [rejected])) (2 / 5) (enumerate 0 (slice_from [song0] 0))
              init_state ?wu = Inr (?st, ?w1)"
    by (simp only: slice_from_def enumerate_simps batch_loop.simps b3 sum.case prod.case
        flow.case drop_0 nat_0 if_False less_irrefl)
  have f3: "flush_logs ''batch_01.json'' ?st ?w1 =
     Inl (JSONDecodeError,
          world0\<lparr>ncalls := 1, draws := 1, trace := [Call call0, Sleep (1 / 2)],
                 scrobbled_files := ''batch_01.json'' @ [CHR 0x0A],
                 json_files := (json_files world0)(?F \<mapsto> Unparsable)\<rparr>)"
    by (simp add: flush_logs_def record_failures_def append_json_def basename_def
        init_state_def world0_def)
  have c: "main (env_of (scripted [rejected])) ''batch_01.json'' [song0] 0 (2 / 5) ?wu =
     Inl (JSONDecodeError,
          world0\<lparr>ncalls := 1, draws := 1, trace := [Call call0, Sleep (1 / 2)],
                 scrobbled_files := ''batch_01.json'' @ [CHR 0x0A],
                 json_files := (json_files world0)(?F \<mapsto> Unparsable)\<rparr>)"
    unfolding main_def Let_def l3 by (simp only: sum.case prod.case f3)
  have s: "scrobbled_files world0 = []" by (simp add: world0_def)
  from a s b c show ?thesis by (intro conjI)
qed

text \<open>
  C8, amended. A run over items that have their two required keys, with a non-negative
  base delay and jitter, leaves the loop normally, at a halt or at the end of the list,
  and goes on to the flush. Whatever happens there, the processed-file log has gained the
  file's base name and a newline. With no failed item the failed-songs artifact is
  untouched; with failed items it is created holding them when it was absent, and holds
  its old entries followed by them when it held an array.
\<close>

theorem run_reaches_log_flush:
  assumes "\<forall>song \<in> set (slice_from data start_index). \<exists>c. call_args song = Inr c"
    and "0 \<le> delay"
    and "\<forall>d. 0 \<le> uniform e d"
  shows "\<exists>st w1 wf.
     batch_loop e delay (enumerate 0 (slice_from data start_index)) init_state w = Inr (st, w1) \<and>
     main e file_name data start_index delay w = flush_logs file_name st w1 \<and>
     (main e file_name data start_index delay w = Inr (st, wf) \<or>
      (\<exists>x. main e file_name data start_index delay w = Inl (x, wf))) \<and>
     scrobbled_files wf = scrobbled_files w @ basename file_name @ [CHR 0x0A] \<and>
     (failed_songs st = [] \<longrightarrow>
        main e file_name data start_index delay w = Inr (st, wf) \<and>
        json_files wf = json_files w) \<and>
     (failed_songs st \<noteq> [] \<and> json_files w ''../logs/failed_songs.json'' = None \<longrightarrow>
        main e file_name data start_index delay w = Inr (st, wf) \<and>
        json_files wf ''../logs/failed_songs.json'' =
          Some (Holds (JArr (map JObj (failed_songs st))))) \<and>
     (\<forall>old. failed_songs st \<noteq> [] \<and>
        json_files w ''../logs/failed_songs.json'' = Some (Holds (JArr old)) \<longrightarrow>
        main e file_name data start_index delay w = Inr (st, wf) \<and>
        json_files wf ''../logs/failed_songs.json'' =
          Some (Holds (JArr (old @ map JObj (failed_songs st)))))"
proof -
  let ?songs = "slice_from data start_index"
  let ?F = "''../logs/failed_songs.json''"
  have "\<forall>it \<in> set (enumerate 0 ?songs). \<exists>c. call_args (snd it) = Inr c"
    using assms(1) by (auto simp: in_set_enumerate_eq)
  from batch_loop_total[OF assms(2,3) this, of init_state w] obtain st w1 where
    loop: "batch_loop e delay (enumerate 0 ?songs) init_state w = Inr (st, w1)"
    and sf: "scrobbled_files w1 = scrobbled_files w" and jf: "json_files w1 = json_files w"
    by blast
  let ?w2 = "w1\<lparr>scrobbled_files := scrobbled_files w1 @ basename file_name @ [CHR 0x0A]\<rparr>"
  have m: "main e file_name data start_index delay w = flush_logs file_name st w1"
    using loop by (simp add: main_def)
  have fl: "flush_logs file_name st w1 =
      (case record_failures (failed_songs st) ?w2 of Inl x \<Rightarrow> Inl x | Inr w3 \<Rightarrow> Inr (st, w3))"
    by (simp add: flush_logs_def)
  have s2: "scrobbled_files ?w2 = scrobbled_files w @ basename file_name @ [CHR 0x0A]"
    using sf by simp
  have j2: "json_files ?w2 = json_files w" using jf by simp
  show ?thesis
  proof (cases "record_failures (failed_songs st) ?w2")
    case (Inl xw)
    obtain x w3 where xw: "xw = (x, w3)" by (cases xw)
    from record_failures_files(1)[OF Inl[unfolded xw]] have w3: "w3 = ?w2" .
    have ne: "failed_songs st \<noteq> []"
      using Inl record_failures_files(3)[of ?w2] by auto
    have no_none: "json_files w ?F \<noteq> None"
      using Inl ne j2 append_json_absent[of ?w2 ?F "map JObj (failed_songs st)"]
      by (auto simp: record_failures_def)
    have no_arr: "\<And>old. json_files w ?F \<noteq> Some (Holds (JArr old))"
      using Inl ne j2 append_json_array[of ?w2 ?F _ "map JObj (failed_songs st)"]
      by (auto simp: record_failures_def)
    have mi: "main e file_name data start_index delay w = Inl (x, ?w2)"
      using m fl Inl xw w3 by simp
    have c3: "main e file_name data start_index delay w = Inr (st, ?w2) \<or>
      (\<exists>x. main e file_name data start_index delay w = Inl (x, ?w2))"
      using mi by blast
    have c5: "failed_songs st = [] \<longrightarrow>
        main e file_name data start_index delay w = Inr (st, ?w2) \<and>
        json_files ?w2 = json_files w"
      using ne by auto
    have c6: "failed_songs st \<noteq> [] \<and> json_files w ?F = None \<longrightarrow>
        main e file_name data start_index delay w = Inr (st, ?w2) \<and>
        json_files ?w2 ?F = Some (Holds (JArr (map JObj (failed_songs st))))"
      using no_none by auto
    have c7: "\<forall>old. failed_songs st \<noteq> [] \<and>
        json_files w ?F = Some (Holds (JArr old)) \<longrightarrow>
        main e file_name data start_index delay w = Inr (st, ?w2) \<and>
        json_files ?w2 ?F = Some (Holds (JArr (old @ map JObj (failed_songs st))))"
      using no_arr by auto
    show ?thesis
      by (rule exI[of _ st], rule exI[of _ w1], rule exI[of _ ?w2])
         (intro conjI loop m c3 s2 c5 c6 c7)
  next
    case (Inr w3)
    have r: "main e file_name data start_index delay w = Inr (st, w3)"
      using m fl Inr by simp
    have s3: "scrobbled_files w3 = scrobbled_files w @ basename file_name @ [CHR 0x0A]"
      using record_failures_files(2)[OF Inr] s2 by simp
    have empty: "failed_songs st = [] \<longrightarrow> json_files w3 = json_files w"
      using Inr j2 by (auto simp: record_failures_def)
    have absent: "failed_songs st \<noteq> [] \<and> json_files w ?F = None \<longrightarrow>
        json_files w3 ?F = Some (Holds (JArr (map JObj (failed_songs st))))"
      using Inr j2 append_json_absent[of ?w2 ?F "map JObj (failed_songs st)"]
      by (auto simp: record_failures_def)
    have arr: "\<forall>old. failed_songs st \<noteq> [] \<and> json_files w ?F = Some (Holds (JArr old)) \<longrightarrow>
        json_files w3 ?F = Some (Holds (JArr (old @ map JObj (failed_songs st))))"
      using Inr j2 append_json_array[of ?w2 ?F _ "map JObj (failed_songs st)"]
      by (auto simp: record_failures_def)
    have c3: "main e file_name data start_index delay w = Inr (st, w3) \<or>
      (\<exists>x. main e file_name data start_index delay w = Inl (x, w3))"
      using r by blast
    have c5: "failed_songs st = [] \<longrightarrow>
        main e file_name data start_index delay w = Inr (st, w3) \<and>
        json_files w3 = json_files w"
      using r empty by simp
    have c6: "failed_songs st \<noteq> [] \<and> json_files w ?F = None \<longrightarrow>
        main e file_name data start_index delay w = Inr (st, w3) \<and>
        json_files w3 ?F = Some (Holds (JArr (map JObj (failed_songs st))))"
      using r absent by simp
    have c7: "\<forall>old. failed_songs st \<noteq> [] \<and>
        json_files w ?F = Some (Holds (JArr old)) \<longrightarrow>
        main e file_name data start_index delay w = Inr (st, w3) \<and>
        json_files w3 ?F = Some (Holds (JArr (old @ map JObj (failed_songs st))))"
      using r arr by simp
    show ?thesis
      by (rule exI[of _ st], rule exI[of _ w1], rule exI[of _ w3])
         (intro conjI loop m c3 s3 c5 c6 c7)
  qed
qed


theorem run_reaches_log_flush_witness:
  "(\<exists>st wf.
      main (env_of (scripted [rejected])) ''../data/batch_01.json'' [song0, song0] 0 (2 / 5)
        world0 = Inr (st, wf) \<and>
      success_count st = 1 \<and> error_count st = 1 \<and>
      scrobbled_files wf = ''batch_01.json'' @ [CHR 0x0A] \<and>
      json_files wf ''../logs/failed_songs.json'' =
        Some (Holds (JArr [JObj (song0 @
          [(''error'', JStr ''API error: Invalid parameters'')])]))) \<and>
   (\<exists>st wf.
      main (env_of (scripted (replicate 20 rejected))) ''batch_02.json'' (replicate 20 song0) 0
        (2 / 5) world0 = Inr (st, wf) \<and>
      error_count st = 11 \<and> length (failed_songs st) = 11 \<and>
      scrobbled_files wf = ''batch_02.json'' @ [CHR 0x0A] \<and>
      json_files wf ''../logs/failed_songs.json'' =
        Some (Holds (JArr (map JObj (failed_songs st)))))"
proof -
  let ?F = "''../logs/failed_songs.json''"
  have none: "json_files world0 ?F = None" by (simp add: world0_def)
  have sf0: "scrobbled_files world0 = []" by (simp add: world0_def)
  have first: "\<exists>st wf.
      main (env_of (scripted [rejected])) ''../data/batch_01.json'' [song0, song0] 0 (2 / 5)
        world0 = Inr (st, wf) \<and>
      success_count st = 1 \<and> error_count st = 1 \<and>
      scrobbled_files wf = ''batch_01.json'' @ [CHR 0x0A] \<and>
      json_files wf ?F =
        Some (Holds (JArr [JObj (song0 @
          [(''error'', JStr ''API error: Invalid parameters'')])]))"
  proof -
    let ?e = "env_of (scripted [rejected])"
    have sl: "slice_from [song0, song0] 0 = [song0, song0]"
      by (simp add: slice_from_def)
    have keys: "\<forall>song \<in> set (slice_from [song0, song0] 0). \<exists>c. call_args song = Inr c"
      unfolding sl by (simp add: call_args_song0)
    have jit: "\<forall>d. 0 \<le> uniform ?e d" by (simp add: env_of_def)
    from run_reaches_log_flush[OF keys _ jit, of "2 / 5" world0 "''../data/batch_01.json''"]
    obtain st w1 wf where
      loop: "batch_loop ?e (2 / 5) (enumerate 0 [song0, song0]) init_state world0 = Inr (st, w1)"
      and sf: "scrobbled_files wf =
               scrobbled_files world0 @ basename ''../data/batch_01.json'' @ [CHR 0x0A]"
      and ab: "failed_songs st \<noteq> [] \<and> json_files world0 ?F = None \<longrightarrow>
        main ?e ''../data/batch_01.json'' [song0, song0] 0 (2 / 5) world0 = Inr (st, wf) \<and>
        json_files wf ?F = Some (Holds (JArr (map JObj (failed_songs st))))"
      unfolding sl by auto
    from batch_loop_last[OF loop]
    have st: "st = init_state\<lparr>success_count := 1, error_count := 1, consecutive_errors := 0,
                 failed_songs := [song0 @ [(''error'', JStr ''API error: Invalid parameters'')]]\<rparr>"
      unfolding example_hist by simp
    have bn: "basename ''../data/batch_01.json'' = ''batch_01.json''"
      by (simp add: basename_def)
    from ab none st sf sf0 bn show ?thesis
      by (intro exI[of _ st] exI[of _ wf]) simp
  qed
  have second: "\<exists>st wf.
      main (env_of (scripted (replicate 20 rejected))) ''batch_02.json'' (replicate 20 song0) 0
        (2 / 5) world0 = Inr (st, wf) \<and>
      error_count st = 11 \<and> length (failed_songs st) = 11 \<and>
      scrobbled_files wf = ''batch_02.json'' @ [CHR 0x0A] \<and>
      json_files wf ?F = Some (Holds (JArr (map JObj (failed_songs st))))"
  proof -
    let ?e = "env_of (scripted (replicate 20 rejected))"
    have sl: "slice_from (replicate 20 song0) 0 = replicate 20 song0"
      by (simp add: slice_from_def)
    have keys: "\<forall>song \<in> set (slice_from (replicate 20 song0) 0). \<exists>c. call_args song = Inr c"
      unfolding sl by (simp add: call_args_song0)
    have jit: "\<forall>d. 0 \<le> uniform ?e d" by (simp add: env_of_def)
    have perm: "\<forall>n<11. \<exists>c. call_args (replicate 20 song0 ! n) = Inr c \<and>
                      is_permanent (network ?e (ncalls world0 + n) c)"
      using is_permanent_rejected
      by (simp add: call_args_song0 env_of_def scripted_def world0_def)
    have ce: "consecutive_errors init_state = 11 - int 11"
      by (simp add: init_state_def)
    from failing_run[OF _ jit ce _ _ perm, of "2 / 5" 0] obtain st' w' where
      halt: "batch_loop ?e (2 / 5) (enumerate 0 (replicate 20 song0)) init_state world0 =
             Inr (st', w')"
      and ec: "error_count st' = 11" and fl: "length (failed_songs st') = 11"
      by (auto simp: init_state_def)
    from run_reaches_log_flush[OF keys _ jit, of "2 / 5" world0 "''batch_02.json''"]
    obtain st w1 wf where
      loop: "batch_loop ?e (2 / 5) (enumerate 0 (replicate 20 song0)) init_state world0 =
             Inr (st, w1)"
      and sf: "scrobbled_files wf = scrobbled_files world0 @ basename ''batch_02.json'' @ [CHR 0x0A]"
      and ab: "failed_songs st \<noteq> [] \<and> json_files world0 ?F = None \<longrightarrow>
        main ?e ''batch_02.json'' (replicate 20 song0) 0 (2 / 5) world0 = Inr (st, wf) \<and>
        json_files wf ?F = Some (Holds (JArr (map JObj (failed_songs st))))"
      unfolding sl by auto
    from halt loop have same: "st = st'" by simp
    with fl have ne: "failed_songs st \<noteq> []" by auto
    have bn: "basename ''batch_02.json'' = ''batch_02.json''"
      by (simp add: basename_def)
    from ab none ne same ec fl sf sf0 bn show ?thesis
      by (intro exI[of _ st] exI[of _ wf]) simp
  qed
  from first second show ?thesis by (rule conjI)
qed

end
